theory Spec2Isabelle
  imports Complex_Main "HOL-Library.Char_ord" "HOL-Library.List_Lexorder" "HOL-Library.Multiset"
begin

section \<open>Nutrition advisor: meal-text parsing and dietary analysis (app.py)\<close>

text \<open>
  The development embeds the analysis core of \<^verbatim>\<open>app.py\<close>: the food matcher
  \<^verbatim>\<open>find_best_food_token\<close>, the parser \<^verbatim>\<open>parse_meal_text\<close>, the calculator
  \<^verbatim>\<open>calc_nutrition_for_item\<close> and \<^verbatim>\<open>sum_totals\<close>, the analyzer
  \<^verbatim>\<open>analyze_meal_text\<close> and the route \<^verbatim>\<open>analyze\<close>.

  Conventions of the embedding.
  \<^item> A character is the Unicode code point of the same number; texts with code points
    above 255 are outside the model. The character classes below are those of Python's
    \<^verbatim>\<open>str.isspace\<close>, \<^verbatim>\<open>\d\<close>, \<^verbatim>\<open>\w\<close> and \<^verbatim>\<open>str.lower\<close> on that range.
  \<^item> Python numbers (the ints and floats of the JSON table, the results of
    \<^verbatim>\<open>float(...)\<close>) are exact rationals: binary rounding of floats is not modelled.
  \<^item> The globals \<^verbatim>\<open>FOOD_DB\<close> (read from a JSON file that is not part of the sources)
    and \<^verbatim>\<open>RDI\<close> are explicit parameters; \<^verbatim>\<open>FOOD_KEYS\<close> is the key list of the table.
  \<^item> Exceptions are values of type \<open>error\<close>; a function that may raise returns
    \<open>error + 'a\<close>.
\<close>

subsection \<open>Characters and strings\<close>

definition is_space :: "char \<Rightarrow> bool" where
  "is_space c = (let n = (of_char c :: nat) in
     (9 \<le> n \<and> n \<le> 13) \<or> (28 \<le> n \<and> n \<le> 32) \<or> n = 133 \<or> n = 160)"

definition is_digit :: "char \<Rightarrow> bool" where
  "is_digit c = (let n = (of_char c :: nat) in 48 \<le> n \<and> n \<le> 57)"

definition is_word :: "char \<Rightarrow> bool" where
  "is_word c = (let n = (of_char c :: nat) in
     (48 \<le> n \<and> n \<le> 57) \<or> (65 \<le> n \<and> n \<le> 90) \<or> n = 95 \<or> (97 \<le> n \<and> n \<le> 122)
     \<or> n = 170 \<or> n = 178 \<or> n = 179 \<or> n = 181 \<or> n = 185 \<or> n = 186
     \<or> (188 \<le> n \<and> n \<le> 190) \<or> (192 \<le> n \<and> n \<le> 214)
     \<or> (216 \<le> n \<and> n \<le> 246) \<or> (248 \<le> n \<and> n \<le> 255))"

definition lower_char :: "char \<Rightarrow> char" where
  "lower_char c = (let n = (of_char c :: nat) in
     if (65 \<le> n \<and> n \<le> 90) \<or> (192 \<le> n \<and> n \<le> 222 \<and> n \<noteq> 215)
     then char_of (n + 32) else c)"

text \<open>\<^verbatim>\<open>s.lower()\<close>, \<^verbatim>\<open>s.strip()\<close> and \<^verbatim>\<open>t in s\<close> on strings.\<close>

definition lower :: "string \<Rightarrow> string" where
  "lower s = map lower_char s"

definition strip :: "string \<Rightarrow> string" where
  "strip s = rev (dropWhile is_space (rev (dropWhile is_space s)))"

fun contains :: "string \<Rightarrow> string \<Rightarrow> bool" where
  "contains t [] = (t = [])"
| "contains t (c # cs) = (take (length t) (c # cs) = t \<or> contains t cs)"

subsection \<open>Regular expressions with Python's backtracking order\<close>

text \<open>
  The constructs the three patterns of the program use. \<open>Opt\<close> and \<open>Star\<close> are the
  greedy \<^verbatim>\<open>?\<close> and \<^verbatim>\<open>*\<close>, \<open>Alt\<close> tries its left branch first, \<open>AnyChar\<close> is
  \<^verbatim>\<open>.\<close> (everything but a newline), \<open>WordB\<close> is \<^verbatim>\<open>\b\<close>, \<open>Group\<close> a named group.
\<close>

datatype regex =
    Eps
  | Chr char
  | Digit
  | Space
  | AnyChar
  | WordB
  | Seq regex regex
  | Alt regex regex
  | Opt regex
  | Star regex
  | Group string regex

text \<open>
  A matcher state: the character before the current position (for \<^verbatim>\<open>\b\<close>), the text
  still to be read, and the groups captured so far (the latest capture first).
\<close>

record mstate =
  prev :: "char option"
  rest :: string
  groups :: "(string \<times> string) list"

definition step_if :: "(char \<Rightarrow> bool) \<Rightarrow> mstate \<Rightarrow> mstate list" where
  "step_if P st = (case rest st of
       [] \<Rightarrow> []
     | c # cs \<Rightarrow> if P c then [st\<lparr>prev := Some c, rest := cs\<rparr>] else [])"

definition at_boundary :: "mstate \<Rightarrow> bool" where
  "at_boundary st =
     ((case prev st of None \<Rightarrow> False | Some c \<Rightarrow> is_word c)
      \<noteq> (case rest st of [] \<Rightarrow> False | c # _ \<Rightarrow> is_word c))"

text \<open>
  \<open>rmatch ic r st\<close> lists every way \<open>r\<close> matches at \<open>st\<close>, in the order in which a
  backtracking matcher tries them, so that the head of the list is the match Python
  reports. \<open>ic\<close> is the flag \<^verbatim>\<open>re.I\<close>. An iteration of \<open>Star\<close> that reads nothing is
  not repeated.
\<close>

function rmatch :: "bool \<Rightarrow> regex \<Rightarrow> mstate \<Rightarrow> mstate list" where
  "rmatch ic Eps st = [st]"
| "rmatch ic (Chr a) st =
     step_if (\<lambda>c. if ic then lower_char c = lower_char a else c = a) st"
| "rmatch ic Digit st = step_if is_digit st"
| "rmatch ic Space st = step_if is_space st"
| "rmatch ic AnyChar st = step_if (\<lambda>c. c \<noteq> CHR 0x0A) st"
| "rmatch ic WordB st = (if at_boundary st then [st] else [])"
| "rmatch ic (Seq r1 r2) st = concat (map (rmatch ic r2) (rmatch ic r1 st))"
| "rmatch ic (Alt r1 r2) st = rmatch ic r1 st @ rmatch ic r2 st"
| "rmatch ic (Opt r) st = rmatch ic r st @ [st]"
| "rmatch ic (Star r) st =
     concat (map (rmatch ic (Star r))
       (filter (\<lambda>st'. length (rest st') < length (rest st)) (rmatch ic r st))) @ [st]"
| "rmatch ic (Group g r) st =
     map (\<lambda>st'. st'\<lparr>groups :=
            (g, take (length (rest st) - length (rest st')) (rest st)) # groups st'\<rparr>)
       (rmatch ic r st)"
  by pat_completeness auto
termination
  by (relation "measures [\<lambda>(ic, r, st). size r, \<lambda>(ic, r, st). length (rest st)]") auto

declare rmatch.simps [simp del]

definition lit :: "string \<Rightarrow> regex" where
  "lit s = foldr (\<lambda>c r. Seq (Chr c) r) s Eps"

definition Plus :: "regex \<Rightarrow> regex" where
  "Plus r = Seq r (Star r)"

definition alts :: "regex list \<Rightarrow> regex" where
  "alts rs = foldr Alt (butlast rs) (last rs)"

text \<open>\<^verbatim>\<open>m.group(name)\<close>: \<open>None\<close> when the group took no part in the match.\<close>

definition match_group :: "mstate \<Rightarrow> string \<Rightarrow> string option" where
  "match_group m g = map_of (groups m) g"

definition start_at :: "char option \<Rightarrow> string \<Rightarrow> mstate" where
  "start_at p s = \<lparr>prev = p, rest = s, groups = []\<rparr>"

text \<open>\<^verbatim>\<open>pattern.match(s)\<close>: the first match that starts at the beginning of \<open>s\<close>.\<close>

definition re_match :: "bool \<Rightarrow> regex \<Rightarrow> string \<Rightarrow> mstate option" where
  "re_match ic r s = (case rmatch ic r (start_at None s) of [] \<Rightarrow> None | m # _ \<Rightarrow> Some m)"

text \<open>\<^verbatim>\<open>pattern.search(s)\<close>: the first match at the leftmost position that has one.\<close>

fun re_search_from :: "bool \<Rightarrow> regex \<Rightarrow> char option \<Rightarrow> string \<Rightarrow> mstate option" where
  "re_search_from ic r p s =
     (case rmatch ic r (start_at p s) of
        m # _ \<Rightarrow> Some m
      | [] \<Rightarrow> (case s of [] \<Rightarrow> None | c # cs \<Rightarrow> re_search_from ic r (Some c) cs))"

declare re_search_from.simps [simp del]

definition re_search :: "bool \<Rightarrow> regex \<Rightarrow> string \<Rightarrow> mstate option" where
  "re_search ic r s = re_search_from ic r None s"

text \<open>
  \<^verbatim>\<open>pattern.sub("", s)\<close>: every match, found from left to right without overlap, is
  deleted. A match that reads nothing deletes nothing and the scan moves on by one
  character.
\<close>

function re_delete_from :: "bool \<Rightarrow> regex \<Rightarrow> char option \<Rightarrow> string \<Rightarrow> string" where
  "re_delete_from ic r p s =
     (case s of
        [] \<Rightarrow> []
      | c # cs \<Rightarrow>
          (case rmatch ic r (start_at p s) of
             [] \<Rightarrow> c # re_delete_from ic r (Some c) cs
           | m # _ \<Rightarrow>
               if length (rest m) < length s then re_delete_from ic r (prev m) (rest m)
               else c # re_delete_from ic r (Some c) cs))"
  by pat_completeness auto
termination
  by (relation "measure (\<lambda>(ic, r, p, s). length s)") auto

declare re_delete_from.simps [simp del]

definition re_delete :: "bool \<Rightarrow> regex \<Rightarrow> string \<Rightarrow> string" where
  "re_delete ic r s = re_delete_from ic r None s"

text \<open>
  \<^verbatim>\<open>re.split(pattern, s)\<close> for a pattern without groups whose matches read at least one
  character (as \<^verbatim>\<open>,|\band\b\<close> does): \<open>cur\<close> is the piece collected since the last
  separator.
\<close>

function re_split_from :: "bool \<Rightarrow> regex \<Rightarrow> char option \<Rightarrow> string \<Rightarrow> string \<Rightarrow> string list" where
  "re_split_from ic r p cur s =
     (case s of
        [] \<Rightarrow> [cur]
      | c # cs \<Rightarrow>
          (case rmatch ic r (start_at p s) of
             [] \<Rightarrow> re_split_from ic r (Some c) (cur @ [c]) cs
           | m # _ \<Rightarrow>
               if length (rest m) < length s then cur # re_split_from ic r (prev m) [] (rest m)
               else re_split_from ic r (Some c) (cur @ [c]) cs))"
  by pat_completeness auto
termination
  by (relation "measure (\<lambda>(ic, r, p, cur, s). length s)") auto

declare re_split_from.simps [simp del]

definition re_split :: "bool \<Rightarrow> regex \<Rightarrow> string \<Rightarrow> string list" where
  "re_split ic r s = re_split_from ic r None [] s"

subsection \<open>The patterns of the program\<close>

text \<open>\<^verbatim>\<open>\d+(?:\.\d+)?\<close>, the body of the groups \<^verbatim>\<open>number\<close> and \<^verbatim>\<open>grams\<close>.\<close>

definition number_pat :: regex where
  "number_pat = Seq (Plus Digit) (Opt (Seq (Chr CHR ''.'') (Plus Digit)))"

definition unit_words :: "string list" where
  "unit_words = [''g'', ''grams'', ''gram'', ''kg'', ''cup'', ''cups'', ''tbsp'', ''tablespoon'',
     ''tsp'', ''teaspoon'', ''slice'', ''slices'', ''serving'', ''servings'', ''piece'', ''pieces'',
     ''egg'', ''eggs'']"

text \<open>
  \<^verbatim>\<open>(?P<number>\d+(?:\.\d+)?)\s*(?P<unit>g|grams|...|egg|eggs)?\s*(?:of)?\s*(?P<food>.+)\<close>,
  compiled with \<^verbatim>\<open>re.I\<close>.
\<close>

definition number_unit_food_re :: regex where
  "number_unit_food_re =
     Seq (Group ''number'' number_pat)
    (Seq (Star Space)
    (Seq (Opt (Group ''unit'' (alts (map lit unit_words))))
    (Seq (Star Space)
    (Seq (Opt (lit ''of''))
    (Seq (Star Space)
         (Group ''food'' (Plus AnyChar)))))))"

text \<open>\<^verbatim>\<open>(?P<grams>\d+(?:\.\d+)?)\s*g\b\<close>, compiled with \<^verbatim>\<open>re.I\<close>.\<close>

definition grams_re :: regex where
  "grams_re = Seq (Group ''grams'' number_pat) (Seq (Star Space) (Seq (Chr CHR ''g'') WordB))"

text \<open>\<^verbatim>\<open>,|\band\b\<close>, used by \<^verbatim>\<open>re.split\<close> without any flag.\<close>

definition split_re :: regex where
  "split_re = Alt (Chr CHR '','') (Seq WordB (Seq (lit ''and'') WordB))"

subsection \<open>Decimal literals\<close>

text \<open>
  \<^verbatim>\<open>float(s)\<close> for a string of the shape \<^verbatim>\<open>\d+(\.\d+)?\<close>, the only shape the groups
  \<^verbatim>\<open>number\<close> and \<^verbatim>\<open>grams\<close> capture.
\<close>

definition digit_val :: "char \<Rightarrow> nat" where
  "digit_val c = of_char c - 48"

definition digits_val :: "string \<Rightarrow> nat" where
  "digits_val s = foldl (\<lambda>n c. 10 * n + digit_val c) 0 s"

definition float_of :: "string \<Rightarrow> rat" where
  "float_of s =
     (let ip = takeWhile (\<lambda>c. c \<noteq> CHR ''.'') s;
          fp = drop 1 (dropWhile (\<lambda>c. c \<noteq> CHR ''.'') s)
      in of_nat (digits_val ip) + of_nat (digits_val fp) / 10 ^ length fp)"

subsection \<open>difflib: similarity ratio and close matches\<close>

text \<open>
  \<^verbatim>\<open>difflib.SequenceMatcher(None, a, b)\<close> as \<^verbatim>\<open>get_close_matches\<close> uses it, with
  \<open>a\<close> the candidate and \<open>b\<close> the word. With no junk function, the only characters
  set apart are the popular ones: when \<open>b\<close> has 200 characters or more, those that
  occur more than \<open>len(b) // 100 + 1\<close> times.
\<close>

definition popular :: "string \<Rightarrow> char set" where
  "popular b =
     (if 200 \<le> length b
      then {c \<in> set b. length (filter (\<lambda>x. x = c) b) > length b div 100 + 1}
      else {})"

text \<open>Length of the longest common prefix, and of the one that avoids the popular characters.\<close>

fun common_prefix :: "string \<Rightarrow> string \<Rightarrow> nat" where
  "common_prefix (x # xs) (y # ys) = (if x = y then Suc (common_prefix xs ys) else 0)"
| "common_prefix _ _ = 0"

fun common_prefix_np :: "char set \<Rightarrow> string \<Rightarrow> string \<Rightarrow> nat" where
  "common_prefix_np pop (x # xs) (y # ys) =
     (if x = y \<and> y \<notin> pop then Suc (common_prefix_np pop xs ys) else 0)"
| "common_prefix_np pop _ _ = 0"

text \<open>
  \<^verbatim>\<open>find_longest_match\<close> on the whole of \<open>a\<close> and \<open>b\<close>: the longest block of
  characters that are not popular, the one that starts earliest in \<open>a\<close> and, among
  those, earliest in \<open>b\<close>; the block is then extended to the left and to the right as
  long as the characters agree. The result is \<open>(i, j, k)\<close> with \<open>a[i:i+k] == b[j:j+k]\<close>.
\<close>

definition block_candidates :: "char set \<Rightarrow> string \<Rightarrow> string \<Rightarrow> (nat \<times> nat \<times> nat) list" where
  "block_candidates pop a b =
     concat (map (\<lambda>i. map (\<lambda>j. (i, j, common_prefix_np pop (drop i a) (drop j b)))
                          [0..<length b]) [0..<length a])"

definition better_block :: "nat \<times> nat \<times> nat \<Rightarrow> nat \<times> nat \<times> nat \<Rightarrow> nat \<times> nat \<times> nat" where
  "better_block best c = (if snd (snd c) > snd (snd best) then c else best)"

definition find_longest_match :: "char set \<Rightarrow> string \<Rightarrow> string \<Rightarrow> nat \<times> nat \<times> nat" where
  "find_longest_match pop a b =
     (let (i, j, k) = foldl better_block (0, 0, 0) (block_candidates pop a b);
          l = common_prefix (rev (take i a)) (rev (take j b));
          r = common_prefix (drop (i + k) a) (drop (j + k) b)
      in (i - l, j - l, l + k + r))"

lemma common_prefix_le: "common_prefix xs ys \<le> length xs \<and> common_prefix xs ys \<le> length ys"
  by (induction xs ys rule: common_prefix.induct) auto

lemma common_prefix_np_le:
  "common_prefix_np pop xs ys \<le> length xs \<and> common_prefix_np pop xs ys \<le> length ys"
  by (induction pop xs ys rule: common_prefix_np.induct) auto

lemma common_prefix_take: "take (common_prefix xs ys) xs = take (common_prefix xs ys) ys"
  by (induction xs ys rule: common_prefix.induct) auto

lemma common_prefix_np_take:
  "take (common_prefix_np pop xs ys) xs = take (common_prefix_np pop xs ys) ys"
  by (induction pop xs ys rule: common_prefix_np.induct) auto

lemma foldl_better_block_cases:
  "foldl better_block init cs = init \<or> foldl better_block init cs \<in> set cs"
  by (induction cs arbitrary: init) (auto simp: better_block_def)

lemma block_candidates_mem:
  "(i, j, k) \<in> set (block_candidates pop a b) \<Longrightarrow>
     i < length a \<and> j < length b \<and> k = common_prefix_np pop (drop i a) (drop j b)"
  by (auto simp: block_candidates_def)

text \<open>A block \<open>(i, j, k)\<close> lies within both strings and is common to them.\<close>

definition block_ok :: "string \<Rightarrow> string \<Rightarrow> nat \<times> nat \<times> nat \<Rightarrow> bool" where
  "block_ok a b t = (case t of (i, j, k) \<Rightarrow>
     i + k \<le> length a \<and> j + k \<le> length b \<and> take k (drop i a) = take k (drop j b))"

lemma best_block_ok: "block_ok a b (foldl better_block (0, 0, 0) (block_candidates pop a b))"
proof -
  let ?t = "foldl better_block (0, 0, 0) (block_candidates pop a b)"
  from foldl_better_block_cases [of "(0, 0, 0)" "block_candidates pop a b"]
  consider "?t = (0, 0, 0)" | "?t \<in> set (block_candidates pop a b)" by blast
  then show ?thesis
  proof cases
    case 1
    then show ?thesis by (simp add: block_ok_def)
  next
    case 2
    obtain i j k where t: "?t = (i, j, k)" by (cases ?t) auto
    with 2 block_candidates_mem [of i j k pop a b]
    have *: "i < length a" "j < length b" "k = common_prefix_np pop (drop i a) (drop j b)"
      by auto
    have "k \<le> length (drop i a)" "k \<le> length (drop j b)"
      using common_prefix_np_le [of pop "drop i a" "drop j b"] * by auto
    moreover have "take k (drop i a) = take k (drop j b)"
      using common_prefix_np_take [of pop "drop i a" "drop j b"] * by simp
    ultimately show ?thesis using * t by (auto simp: block_ok_def)
  qed
qed


lemma take_rev_eq: "l \<le> i \<Longrightarrow> i \<le> length a \<Longrightarrow> take l (rev (take i a)) = rev (take l (drop (i - l) a))"
  by (simp add: take_rev drop_take)

lemma extend_block_ok:
  assumes ok: "block_ok a b (i, j, k)"
  defines "l \<equiv> common_prefix (rev (take i a)) (rev (take j b))"
  defines "r \<equiv> common_prefix (drop (i + k) a) (drop (j + k) b)"
  shows "block_ok a b (i - l, j - l, l + k + r)"
proof -
  from ok have ia: "i + k \<le> length a" and jb: "j + k \<le> length b"
    and mid: "take k (drop i a) = take k (drop j b)"
    by (auto simp: block_ok_def)
  have li: "l \<le> i" and lj: "l \<le> j"
    using common_prefix_le [of "rev (take i a)" "rev (take j b)"] by (auto simp: l_def)
  have ra: "r \<le> length a - (i + k)" and rb: "r \<le> length b - (j + k)"
    using common_prefix_le [of "drop (i + k) a" "drop (j + k) b"] by (auto simp: r_def)
  have "take l (rev (take i a)) = take l (rev (take j b))"
    unfolding l_def by (rule common_prefix_take)
  then have left: "take l (drop (i - l) a) = take l (drop (j - l) b)"
    using li lj ia jb by (simp add: take_rev_eq)
  have right: "take r (drop (i + k) a) = take r (drop (j + k) b)"
    unfolding r_def by (rule common_prefix_take)
  have split: "take (l + k + r) (drop (n - l) xs)
      = take l (drop (n - l) xs) @ take k (drop n xs) @ take r (drop (n + k) xs)"
    if "l \<le> n" for n and xs :: string
  proof -
    have "take (l + (k + r)) (drop (n - l) xs)
        = take l (drop (n - l) xs) @ take (k + r) (drop l (drop (n - l) xs))"
      by (rule take_add)
    also have "drop l (drop (n - l) xs) = drop n xs"
      using that by simp
    also have "take (k + r) (drop n xs) = take k (drop n xs) @ take r (drop k (drop n xs))"
      by (rule take_add)
    also have "drop k (drop n xs) = drop (n + k) xs"
      by (simp add: add.commute)
    finally show ?thesis by (simp add: add.assoc)
  qed
  have eq: "take (l + k + r) (drop (i - l) a) = take (l + k + r) (drop (j - l) b)"
    using left mid right split [OF li, of a] split [OF lj, of b] by simp
  have "i - l + (l + k + r) \<le> length a" "j - l + (l + k + r) \<le> length b"
    using li lj ia jb ra rb by linarith+
  with eq show ?thesis
    by (simp add: block_ok_def)
qed

lemma find_longest_match_ok: "block_ok a b (find_longest_match pop a b)"
proof -
  obtain i j k where t: "foldl better_block (0, 0, 0) (block_candidates pop a b) = (i, j, k)"
    by (cases "foldl better_block (0, 0, 0) (block_candidates pop a b)") auto
  with best_block_ok [of a b pop] have "block_ok a b (i, j, k)" by simp
  from extend_block_ok [OF this] show ?thesis
    by (simp add: find_longest_match_def t Let_def)
qed

text \<open>
  \<^verbatim>\<open>get_matching_blocks\<close>, reduced to the total size of the blocks: the longest
  block, then the same to the left and to the right of it.
\<close>

function matching_total :: "char set \<Rightarrow> string \<Rightarrow> string \<Rightarrow> nat" where
  "matching_total pop a b =
     (case find_longest_match pop a b of (i, j, k) \<Rightarrow>
        if k = 0 then 0
        else k + (if 0 < i \<and> 0 < j then matching_total pop (take i a) (take j b) else 0)
               + (if i + k < length a \<and> j + k < length b
                  then matching_total pop (drop (i + k) a) (drop (j + k) b) else 0))"
  by pat_completeness auto
termination
proof (relation "measure (\<lambda>(pop, a, b). length a)")
  fix pop a b i y j k
  assume "(i, y) = find_longest_match pop a b" "(j, k) = y" "k \<noteq> 0"
  then have "block_ok a b (i, j, k)"
    using find_longest_match_ok [of a b pop] by (cases y) auto
  then have "i + k \<le> length a" by (simp add: block_ok_def)
  with \<open>k \<noteq> 0\<close>
  show "((pop, take i a, take j b), (pop, a, b)) \<in> measure (\<lambda>(pop, a, b). length a)"
    by auto
qed auto

declare matching_total.simps [simp del]

text \<open>\<^verbatim>\<open>ratio()\<close>, \<^verbatim>\<open>quick_ratio()\<close> and \<^verbatim>\<open>real_quick_ratio()\<close>.\<close>

definition calculate_ratio :: "nat \<Rightarrow> nat \<Rightarrow> rat" where
  "calculate_ratio matches len = (if len \<noteq> 0 then 2 * of_nat matches / of_nat len else 1)"

definition seq_ratio :: "string \<Rightarrow> string \<Rightarrow> rat" where
  "seq_ratio a b = calculate_ratio (matching_total (popular b) a b) (length a + length b)"

fun quick_matches :: "string \<Rightarrow> string \<Rightarrow> nat" where
  "quick_matches [] avail = 0"
| "quick_matches (x # xs) avail =
     (if x \<in> set avail then Suc (quick_matches xs (remove1 x avail))
      else quick_matches xs avail)"

definition quick_ratio :: "string \<Rightarrow> string \<Rightarrow> rat" where
  "quick_ratio a b = calculate_ratio (quick_matches a b) (length a + length b)"

definition real_quick_ratio :: "string \<Rightarrow> string \<Rightarrow> rat" where
  "real_quick_ratio a b = calculate_ratio (min (length a) (length b)) (length a + length b)"

text \<open>
  \<^verbatim>\<open>get_close_matches(word, possibilities, n=1, cutoff)\<close>: the candidates that pass
  the three tests are scored, and \<^verbatim>\<open>heapq.nlargest(1, result)\<close> is the first greatest
  pair \<open>(score, candidate)\<close> in Python's order on tuples.
\<close>

definition good_enough :: "rat \<Rightarrow> string \<Rightarrow> string \<Rightarrow> bool" where
  "good_enough cutoff word x =
     (real_quick_ratio x word \<ge> cutoff \<and> quick_ratio x word \<ge> cutoff \<and> seq_ratio x word \<ge> cutoff)"

definition tuple_less :: "rat \<times> string \<Rightarrow> rat \<times> string \<Rightarrow> bool" where
  "tuple_less p q = (fst p < fst q \<or> (fst p = fst q \<and> snd p < snd q))"

definition nlargest1 :: "(rat \<times> string) list \<Rightarrow> (rat \<times> string) list" where
  "nlargest1 result =
     (case result of
        [] \<Rightarrow> []
      | r # rs \<Rightarrow> [foldl (\<lambda>best c. if tuple_less best c then c else best) r rs])"

definition get_close_matches :: "string \<Rightarrow> string list \<Rightarrow> rat \<Rightarrow> string list" where
  "get_close_matches word possibilities cutoff =
     map snd (nlargest1
       (map (\<lambda>x. (seq_ratio x word, x)) (filter (good_enough cutoff word) possibilities)))"

subsection \<open>Configuration and data\<close>

datatype error = KeyError | TypeError | ZeroDivisionError | EmptyInput

text \<open>
  A Python dict with string keys and numeric values. \<open>dict_get d k v\<close> is
  \<^verbatim>\<open>d.get(k, v)\<close>; \<open>dict_item d k\<close> is \<^verbatim>\<open>d[k]\<close>, which raises \<^verbatim>\<open>KeyError\<close>.
\<close>

type_synonym num_dict = "string \<rightharpoonup> rat"

definition dict_get :: "num_dict \<Rightarrow> string \<Rightarrow> rat \<Rightarrow> rat" where
  "dict_get d k v = (case d k of None \<Rightarrow> v | Some x \<Rightarrow> x)"

definition dict_item :: "num_dict \<Rightarrow> string \<Rightarrow> error + rat" where
  "dict_item d k = (case d k of None \<Rightarrow> Inl KeyError | Some x \<Rightarrow> Inr x)"

text \<open>
  \<^verbatim>\<open>FOOD_DB\<close>: the table in the order of the JSON file, each entry a dict of
  numbers. \<^verbatim>\<open>FOOD_KEYS = list(FOOD_DB.keys())\<close>.
\<close>

type_synonym food_db = "(string \<times> num_dict) list"

definition FOOD_KEYS :: "food_db \<Rightarrow> string list" where
  "FOOD_KEYS db = map fst db"

definition food_entry :: "food_db \<Rightarrow> string option \<Rightarrow> num_dict option" where
  "food_entry db key = (case key of None \<Rightarrow> None | Some k \<Rightarrow> map_of db k)"

definition RDI :: num_dict where
  "RDI = [''calories'' \<mapsto> 2000, ''protein'' \<mapsto> 50, ''carbs'' \<mapsto> 275, ''fat'' \<mapsto> 70,
          ''fiber'' \<mapsto> 28, ''vitamin_c'' \<mapsto> 90]"

definition UNIT_TO_G :: num_dict where
  "UNIT_TO_G = [''g'' \<mapsto> 1, ''gram'' \<mapsto> 1, ''grams'' \<mapsto> 1, ''kg'' \<mapsto> 1000,
     ''cup'' \<mapsto> 240, ''cups'' \<mapsto> 240, ''tbsp'' \<mapsto> 15, ''tablespoon'' \<mapsto> 15, ''tsp'' \<mapsto> 5,
     ''slice'' \<mapsto> 30, ''slices'' \<mapsto> 30, ''serving'' \<mapsto> 100, ''servings'' \<mapsto> 100,
     ''piece'' \<mapsto> 80, ''pieces'' \<mapsto> 80, ''egg'' \<mapsto> 50, ''eggs'' \<mapsto> 50]"

definition NUTRIENTS :: "string list" where
  "NUTRIENTS = [''calories'', ''protein'', ''carbs'', ''fat'', ''fiber'', ''vitamin_c'']"

subsection \<open>find_best_food_token\<close>

definition find_best_food_token :: "food_db \<Rightarrow> string \<Rightarrow> string option \<times> rat" where
  "find_best_food_token db token0 =
     (let token = lower (strip token0) in
      case List.find (\<lambda>key. token = lower key) (FOOD_KEYS db) of
        Some key \<Rightarrow> (Some key, 1)
      | None \<Rightarrow>
          (case get_close_matches token (FOOD_KEYS db) (6 / 10) of
             m # _ \<Rightarrow> (Some m, 8 / 10)
           | [] \<Rightarrow>
               (case List.find (\<lambda>key. contains token (lower key)) (FOOD_KEYS db) of
                  Some key \<Rightarrow> (Some key, 7 / 10)
                | None \<Rightarrow> (None, 0))))"

subsection \<open>parse_meal_text\<close>

record parsed_item =
  raw :: string
  food_key :: "string option"
  grams :: rat
  confidence :: rat

text \<open>Truth value of \<^verbatim>\<open>num\<close>, which is \<^verbatim>\<open>None\<close> or a float.\<close>

definition truthy :: "rat option \<Rightarrow> bool" where
  "truthy num = (case num of None \<Rightarrow> False | Some v \<Rightarrow> v \<noteq> 0)"

definition num_val :: "rat option \<Rightarrow> rat" where
  "num_val num = (case num of None \<Rightarrow> 0 | Some v \<Rightarrow> v)"

text \<open>
  The first clause shape: \<^verbatim>\<open>grams_re.search(p)\<close> found the match \<open>gm\<close>. The food
  token is \<^verbatim>\<open>grams_re.sub("", p).strip()\<close>.
\<close>

definition grams_token :: "string \<Rightarrow> string" where
  "grams_token p = strip (re_delete True grams_re p)"

definition parse_grams_clause :: "food_db \<Rightarrow> string \<Rightarrow> mstate \<Rightarrow> error + parsed_item" where
  "parse_grams_clause db p gm =
     (case match_group gm ''grams'' of
        None \<Rightarrow> Inl TypeError
      | Some s \<Rightarrow>
          (let grams = float_of s;
               token = grams_token p;
               (key, conf) = find_best_food_token db token;
               key = (case key of None \<Rightarrow> Some token | Some k \<Rightarrow> Some k)
           in Inr \<lparr>raw = p, food_key = key, grams = grams, confidence = conf\<rparr>))"

text \<open>
  The second clause shape: \<^verbatim>\<open>number_unit_food_re.match(p)\<close> gave the match \<open>m\<close>.
  The food token is \<^verbatim>\<open>(m.group("food") or "").strip().lower()\<close>.
\<close>

definition food_token :: "mstate \<Rightarrow> string" where
  "food_token m = lower (strip (case match_group m ''food'' of None \<Rightarrow> [] | Some f \<Rightarrow> f))"

text \<open>
  \<^verbatim>\<open>num\<close> is \<^verbatim>\<open>float(m.group("number")) if m.group("number") else None\<close> and
  \<^verbatim>\<open>unit\<close> is \<^verbatim>\<open>(m.group("unit") or "").lower()\<close>.
\<close>

definition match_number :: "mstate \<Rightarrow> rat option" where
  "match_number m =
     (case match_group m ''number'' of
        None \<Rightarrow> None
      | Some s \<Rightarrow> if s = [] then None else Some (float_of s))"

definition match_unit :: "mstate \<Rightarrow> string" where
  "match_unit m = lower (case match_group m ''unit'' of None \<Rightarrow> [] | Some u \<Rightarrow> u)"

text \<open>The block under \<^verbatim>\<open># determine grams\<close>.\<close>

definition determine_grams :: "food_db \<Rightarrow> rat option \<Rightarrow> string \<Rightarrow> string option \<Rightarrow> rat" where
  "determine_grams db num unit key =
     (if truthy num \<and> unit \<noteq> [] then
        (case UNIT_TO_G unit of
           Some u \<Rightarrow> num_val num * u
         | None \<Rightarrow> num_val num * 100)
      else if truthy num \<and> unit = [] then
        (case food_entry db key of
           Some e \<Rightarrow> num_val num * dict_get e ''serving_g'' 100
         | None \<Rightarrow> num_val num * 100)
      else
        (case food_entry db key of
           Some e \<Rightarrow> dict_get e ''serving_g'' 100
         | None \<Rightarrow> 100))"

definition parse_number_unit_food :: "food_db \<Rightarrow> string \<Rightarrow> mstate \<Rightarrow> error + parsed_item" where
  "parse_number_unit_food db p m =
     (let num = match_number m;
          unit = match_unit m;
          (key, conf) = find_best_food_token db (food_token m);
          grams = determine_grams db num unit key
      in Inr \<lparr>raw = p, food_key = key, grams = grams, confidence = conf\<rparr>)"

text \<open>The third clause shape: the whole clause is the food name.\<close>

definition parse_bare_food :: "food_db \<Rightarrow> string \<Rightarrow> error + parsed_item" where
  "parse_bare_food db p =
     (let token = lower p;
          (key, conf) = find_best_food_token db token
      in case food_entry db key of
           Some e \<Rightarrow>
             (case dict_item e ''serving_g'' of
                Inl err \<Rightarrow> Inl err
              | Inr g \<Rightarrow> Inr \<lparr>raw = p, food_key = key, grams = g, confidence = conf\<rparr>)
         | None \<Rightarrow> Inr \<lparr>raw = p, food_key = key, grams = 100, confidence = conf\<rparr>)"

definition parse_clause :: "food_db \<Rightarrow> string \<Rightarrow> error + parsed_item" where
  "parse_clause db p =
     (case re_search True grams_re p of
        Some gm \<Rightarrow> parse_grams_clause db p gm
      | None \<Rightarrow>
          (case re_match True number_unit_food_re p of
             Some m \<Rightarrow> parse_number_unit_food db p m
           | None \<Rightarrow> parse_bare_food db p))"

text \<open>The clauses of a text: the stripped parts that are not empty.\<close>

definition clauses :: "string \<Rightarrow> string list" where
  "clauses text = filter (\<lambda>p. p \<noteq> []) (map strip (re_split False split_re text))"

text \<open>The loop over the clauses; the first exception ends it.\<close>

fun parse_each :: "food_db \<Rightarrow> string list \<Rightarrow> error + parsed_item list" where
  "parse_each db [] = Inr []"
| "parse_each db (p # ps) =
     (case parse_clause db p of
        Inl err \<Rightarrow> Inl err
      | Inr item \<Rightarrow>
          (case parse_each db ps of
             Inl err \<Rightarrow> Inl err
           | Inr items \<Rightarrow> Inr (item # items)))"

definition parse_meal_text :: "food_db \<Rightarrow> string \<Rightarrow> error + parsed_item list" where
  "parse_meal_text db text = parse_each db (clauses text)"

subsection \<open>Nutrition calculations\<close>

text \<open>
  \<^verbatim>\<open>round(x, nd)\<close>: to \<open>nd\<close> decimals, a tie going to the even neighbour.
\<close>

definition round_half_even :: "rat \<Rightarrow> int" where
  "round_half_even q =
     (let f = \<lfloor>q\<rfloor>; d = q - of_int f
      in if d < 1 / 2 then f else if d > 1 / 2 then f + 1 else if even f then f else f + 1)"

definition py_round :: "nat \<Rightarrow> rat \<Rightarrow> rat" where
  "py_round nd x = of_int (round_half_even (x * 10 ^ nd)) / 10 ^ nd"

definition calc_nutrition_for_item :: "food_db \<Rightarrow> string option \<Rightarrow> rat \<Rightarrow> num_dict" where
  "calc_nutrition_for_item db key g =
     (case food_entry db key of
        None \<Rightarrow> foldl (\<lambda>res n. res(n \<mapsto> 0)) Map.empty NUTRIENTS
      | Some base \<Rightarrow>
          foldl (\<lambda>res n. res(n \<mapsto> (g / 100) * dict_get base n 0)) Map.empty NUTRIENTS)"

text \<open>The inner loop of \<^verbatim>\<open>sum_totals\<close>: \<^verbatim>\<open>totals[n] += ni.get(n, 0.0)\<close> for each nutrient.\<close>

fun add_nutrients :: "num_dict \<Rightarrow> num_dict \<Rightarrow> string list \<Rightarrow> error + num_dict" where
  "add_nutrients totals ni [] = Inr totals"
| "add_nutrients totals ni (n # ns) =
     (case dict_item totals n of
        Inl err \<Rightarrow> Inl err
      | Inr t \<Rightarrow> add_nutrients (totals(n \<mapsto> t + dict_get ni n 0)) ni ns)"

fun add_items :: "num_dict \<Rightarrow> num_dict list \<Rightarrow> error + num_dict" where
  "add_items totals [] = Inr totals"
| "add_items totals (ni # nis) =
     (case add_nutrients totals ni NUTRIENTS of
        Inl err \<Rightarrow> Inl err
      | Inr totals' \<Rightarrow> add_items totals' nis)"

definition sum_totals :: "num_dict list \<Rightarrow> error + num_dict" where
  "sum_totals item_nut_list =
     (case add_items (foldl (\<lambda>res n. res(n \<mapsto> 0)) Map.empty NUTRIENTS) item_nut_list of
        Inl err \<Rightarrow> Inl err
      | Inr totals \<Rightarrow> Inr (\<lambda>k. map_option (py_round 2) (totals k)))"

subsection \<open>analyze_meal_text\<close>

text \<open>
  A flag stands for the string \<^verbatim>\<open>f"Low {n} ({round(pct,1)}% of RDI)"\<close> or
  \<^verbatim>\<open>f"High {n} ({round(pct,1)}% of RDI)"\<close>: it keeps the nutrient and the rounded
  percentage, not the rendering of the number.
\<close>

datatype flag = Low string rat | High string rat

fun flag_nutrient :: "flag \<Rightarrow> string" where
  "flag_nutrient (Low n _) = n"
| "flag_nutrient (High n _) = n"

record item_view =
  iv_raw :: string
  iv_food_key :: "string option"
  iv_grams :: rat
  iv_confidence :: rat
  iv_nutrition :: num_dict

record analysis_result =
  parsed_items :: "item_view list"
  totals :: num_dict
  flags :: "flag list"
  suggestions :: "string list"

definition py_div :: "rat \<Rightarrow> rat \<Rightarrow> error + rat" where
  "py_div a b = (if b = 0 then Inl ZeroDivisionError else Inr (a / b))"

definition low_suggestions :: "string \<Rightarrow> string list" where
  "low_suggestions n =
     (if n = ''protein'' then [''Add a protein source: egg, paneer, dal, or chicken.''] else []) @
     (if n = ''fiber'' then [''Add vegetables or fruit (spinach, apple, banana).''] else []) @
     (if n = ''vitamin_c''
      then [''Add vitamin C rich food: orange, spinach, potato or fruits.''] else []) @
     (if n = ''calories''
      then [''Increase portion sizes or add an energy-dense item (nuts, paneer).''] else [])"

definition high_suggestions :: "string \<Rightarrow> string list" where
  "high_suggestions n =
     (if n = ''fat'' then [''Reduce fried items or oil; prefer grilled or steamed.''] else []) @
     (if n = ''calories''
      then [''Reduce portion or swap to lower-calorie alternatives.''] else [])"

text \<open>
  One round of the loop over the nutrients: the flags and suggestions it appends.
  \<^verbatim>\<open>if r:\<close> holds when the target is present and not zero.
\<close>

definition assess :: "num_dict \<Rightarrow> num_dict \<Rightarrow> string \<Rightarrow> error + flag list \<times> string list" where
  "assess rdi tot n =
     (case rdi n of
        None \<Rightarrow> Inr ([], [])
      | Some r \<Rightarrow>
          if r = 0 then Inr ([], [])
          else
            (case dict_item tot n of
               Inl err \<Rightarrow> Inl err
             | Inr t \<Rightarrow>
                 (case py_div t r of
                    Inl err \<Rightarrow> Inl err
                  | Inr q \<Rightarrow>
                      (let pct = q * 100 in
                       if pct < 80 then Inr ([Low n (py_round 1 pct)], low_suggestions n)
                       else if pct > 120 then Inr ([High n (py_round 1 pct)], high_suggestions n)
                       else Inr ([], [])))))"

fun assess_all :: "num_dict \<Rightarrow> num_dict \<Rightarrow> string list \<Rightarrow> error + flag list \<times> string list" where
  "assess_all rdi tot [] = Inr ([], [])"
| "assess_all rdi tot (n # ns) =
     (case assess rdi tot n of
        Inl err \<Rightarrow> Inl err
      | Inr (fl, su) \<Rightarrow>
          (case assess_all rdi tot ns of
             Inl err \<Rightarrow> Inl err
           | Inr (fls, sus) \<Rightarrow> Inr (fl @ fls, su @ sus)))"

text \<open>\<^verbatim>\<open>list(dict.fromkeys(xs))\<close>: the first occurrence of each element is kept.\<close>

fun dedup :: "'a list \<Rightarrow> 'a list" where
  "dedup [] = []"
| "dedup (x # xs) = x # dedup (filter (\<lambda>y. y \<noteq> x) xs)"

definition view_of :: "food_db \<Rightarrow> parsed_item \<Rightarrow> item_view" where
  "view_of db p =
     (let nut = calc_nutrition_for_item db (food_key p) (grams p)
      in \<lparr>iv_raw = raw p, iv_food_key = food_key p, iv_grams = py_round 1 (grams p),
          iv_confidence = py_round 2 (confidence p),
          iv_nutrition = (\<lambda>k. map_option (py_round 2) (nut k))\<rparr>)"

definition analyze_meal_text :: "num_dict \<Rightarrow> food_db \<Rightarrow> string \<Rightarrow> error + analysis_result" where
  "analyze_meal_text rdi db text =
     (case parse_meal_text db text of
        Inl err \<Rightarrow> Inl err
      | Inr parsed \<Rightarrow>
          (let parsed_with_nut = map (view_of db) parsed;
               item_nut_list =
                 map (\<lambda>p. calc_nutrition_for_item db (food_key p) (grams p)) parsed
           in case sum_totals item_nut_list of
                Inl err \<Rightarrow> Inl err
              | Inr tot \<Rightarrow>
                  (case assess_all rdi tot NUTRIENTS of
                     Inl err \<Rightarrow> Inl err
                   | Inr (fl, su) \<Rightarrow>
                       Inr \<lparr>parsed_items = parsed_with_nut, totals = tot, flags = fl,
                            suggestions = dedup su\<rparr>)))"

subsection \<open>The route analyze\<close>

text \<open>
  \<open>'s\<close> is the state of the log store and \<open>save\<close> stands for \<^verbatim>\<open>save_log\<close>, which
  returns the new store or \<open>None\<close> when it raises; the exception is caught and the
  store is then left as it was. An empty input is answered with the error (status 400)
  before anything else is done.
\<close>

definition analyze ::
  "('s \<Rightarrow> string \<Rightarrow> num_dict \<Rightarrow> 's option) \<Rightarrow> num_dict \<Rightarrow> food_db \<Rightarrow> string \<Rightarrow> 's
     \<Rightarrow> (error + analysis_result) \<times> 's" where
  "analyze save rdi db text store =
     (if strip text = [] then (Inl EmptyInput, store)
      else
        (case analyze_meal_text rdi db text of
           Inl err \<Rightarrow> (Inl err, store)
         | Inr result \<Rightarrow>
             (Inr result,
              case save store text (totals result) of None \<Rightarrow> store | Some store' \<Rightarrow> store')))"

subsection \<open>Views of a result and an example table\<close>

text \<open>
  Modelled from the spec: the file \<^verbatim>\<open>food_db.json\<close> behind \<^verbatim>\<open>FOOD_DB\<close> is not part of
  the sources; this is the reference table of the spec's end-to-end example, with the
  single entry \<^verbatim>\<open>egg\<close>.
\<close>

definition example_db :: food_db where
  "example_db = [(''egg'', [''calories'' \<mapsto> 155, ''protein'' \<mapsto> 13, ''carbs'' \<mapsto> 11 / 10,
     ''fat'' \<mapsto> 11, ''fiber'' \<mapsto> 0, ''vitamin_c'' \<mapsto> 0, ''serving_g'' \<mapsto> 50])]"

text \<open>
  A table with three entries, for the examples about matching: \<^verbatim>\<open>egg\<close> as above,
  and \<^verbatim>\<open>banana\<close> (serving 120 g) and \<^verbatim>\<open>chicken breast\<close>, which the spec's examples
  name; their nutrient values are sample values.
\<close>

definition sample_db :: food_db where
  "sample_db =
     [(''egg'', [''calories'' \<mapsto> 155, ''protein'' \<mapsto> 13, ''carbs'' \<mapsto> 11 / 10,
        ''fat'' \<mapsto> 11, ''fiber'' \<mapsto> 0, ''vitamin_c'' \<mapsto> 0, ''serving_g'' \<mapsto> 50]),
      (''banana'', [''calories'' \<mapsto> 89, ''protein'' \<mapsto> 11 / 10, ''carbs'' \<mapsto> 23,
        ''fat'' \<mapsto> 3 / 10, ''fiber'' \<mapsto> 26 / 10, ''vitamin_c'' \<mapsto> 87 / 10,
        ''serving_g'' \<mapsto> 120]),
      (''chicken breast'', [''calories'' \<mapsto> 165, ''protein'' \<mapsto> 31, ''carbs'' \<mapsto> 0,
        ''fat'' \<mapsto> 36 / 10, ''fiber'' \<mapsto> 0, ''vitamin_c'' \<mapsto> 0, ''serving_g'' \<mapsto> 100])]"


definition flags_for :: "string \<Rightarrow> analysis_result \<Rightarrow> flag list" where
  "flags_for n res = filter (\<lambda>f. flag_nutrient f = n) (flags res)"


subsection \<open>The splitting, in the spec's words\<close>

text \<open>
  Follows the spec: the text is cut at every literal comma and at every standalone
  word \<^verbatim>\<open>and\<close>, that is, one with no word character right before it and none right
  after it. \<open>ci\<close> tells whether \<^verbatim>\<open>and\<close> is recognised without regard to case, as
  the spec has it. \<open>p\<close> is the character before the current position and \<open>cur\<close>
  the part collected so far.
\<close>

definition word_before :: "char option \<Rightarrow> bool" where
  "word_before p = (case p of None \<Rightarrow> False | Some c \<Rightarrow> is_word c)"

definition word_next :: "string \<Rightarrow> bool" where
  "word_next s = (case s of [] \<Rightarrow> False | c # _ \<Rightarrow> is_word c)"

function spec_split :: "bool \<Rightarrow> char option \<Rightarrow> string \<Rightarrow> string \<Rightarrow> string list" where
  "spec_split ci p cur s =
     (case s of
        [] \<Rightarrow> [cur]
      | c # cs \<Rightarrow>
          if c = CHR '','' then cur # spec_split ci (Some c) [] cs
          else if (if ci then lower (take 3 s) else take 3 s) = ''and''
                  \<and> \<not> word_before p \<and> \<not> word_next (drop 3 s)
          then cur # spec_split ci (Some (s ! 2)) [] (drop 3 s)
          else spec_split ci (Some c) (cur @ [c]) cs)"
  by pat_completeness auto
termination
  by (relation "measure (\<lambda>(ci, p, cur, s). length s)") auto

declare spec_split.simps [simp del]

text \<open>The parts that remain after stripping and dropping the empty ones.\<close>

definition spec_clauses :: "bool \<Rightarrow> string \<Rightarrow> string list" where
  "spec_clauses ci text = filter (\<lambda>p. p \<noteq> []) (map strip (spec_split ci None [] text))"

text \<open>
  Of a returned item: \<^verbatim>\<open>food_key\<close>, \<^verbatim>\<open>grams\<close>, \<^verbatim>\<open>confidence\<close> and the
  \<^verbatim>\<open>calories\<close> and \<^verbatim>\<open>protein\<close> of its \<^verbatim>\<open>nutrition\<close>.
\<close>

definition item_summary ::
  "item_view \<Rightarrow> string option \<times> rat \<times> rat \<times> rat option \<times> rat option" where
  "item_summary item =
     (iv_food_key item, iv_grams item, iv_confidence item,
      iv_nutrition item ''calories'', iv_nutrition item ''protein'')"

definition summary :: "analysis_result \<Rightarrow> (string option \<times> rat \<times> rat \<times> rat option \<times> rat option) list" where
  "summary res = map item_summary (parsed_items res)"

section \<open>Properties\<close>

subsection \<open>The quick ratios bound the ratio from above\<close>

lemma inter_of_sums:
  "(A1 \<inter># B1) + B + (A2 \<inter># B2) \<subseteq># (A1 + B + A2) \<inter># (B1 + B + (B2 :: 'a multiset))"
  by (rule mset_subset_eqI) (simp add: min_def)

lemma mset_block_split:
  "i + k \<le> length a \<Longrightarrow>
     mset a = mset (take i a) + mset (take k (drop i a)) + mset (drop (i + k) a)"
proof -
  have "mset a = mset (take i a) + mset (drop i a)"
    by (metis append_take_drop_id mset_append)
  moreover have "mset (drop i a) = mset (take k (drop i a)) + mset (drop k (drop i a))"
    by (metis append_take_drop_id mset_append)
  moreover have "drop k (drop i a) = drop (i + k) a"
    by (simp add: add.commute)
  ultimately show ?thesis by (simp add: add.assoc)
qed

lemma matching_total_le_common: "matching_total pop a b \<le> size (mset a \<inter># mset b)"
proof (induction pop a b rule: matching_total.induct)
  case (1 pop a b)
  obtain i j k where f: "find_longest_match pop a b = (i, j, k)"
    by (cases "find_longest_match pop a b") auto
  have ok: "block_ok a b (i, j, k)"
    using find_longest_match_ok [of a b pop] f by simp
  show ?case
  proof (cases "k = 0")
    case True
    then show ?thesis by (subst matching_total.simps) (simp add: f)
  next
    case False
    let ?L = "if 0 < i \<and> 0 < j then matching_total pop (take i a) (take j b) else 0"
    let ?R = "if i + k < length a \<and> j + k < length b
              then matching_total pop (drop (i + k) a) (drop (j + k) b) else 0"
    have L: "?L \<le> size (mset (take i a) \<inter># mset (take j b))"
      using "1.IH"(1) [OF f [symmetric] refl False] by simp
    have R: "?R \<le> size (mset (drop (i + k) a) \<inter># mset (drop (j + k) b))"
      using "1.IH"(2) [OF f [symmetric] refl False] by simp
    from ok have ia: "i + k \<le> length a" and jb: "j + k \<le> length b"
      and blk: "take k (drop i a) = take k (drop j b)"
      by (auto simp: block_ok_def)
    have "size ((mset (take i a) \<inter># mset (take j b)) + mset (take k (drop i a))
            + (mset (drop (i + k) a) \<inter># mset (drop (j + k) b)))
          \<le> size (mset a \<inter># mset b)"
      using inter_of_sums [of "mset (take i a)" "mset (take j b)" "mset (take k (drop i a))"
          "mset (drop (i + k) a)" "mset (drop (j + k) b)"]
        mset_block_split [OF ia] mset_block_split [OF jb] blk
      by (metis size_mset_mono)
    moreover have "size (mset (take k (drop i a))) = k"
      using ia by simp
    moreover have "matching_total pop a b = k + ?L + ?R"
      using False by (subst matching_total.simps) (simp add: f)
    ultimately show ?thesis using L R by simp
  qed
qed

lemma quick_matches_common: "quick_matches a b = size (mset a \<inter># mset b)"
proof (induction a arbitrary: b)
  case Nil
  then show ?case by simp
next
  case (Cons x xs)
  show ?case
  proof (cases "x \<in> set b")
    case True
    then have "add_mset x (mset xs) \<inter># mset b = add_mset x (mset xs \<inter># (mset b - {#x#}))"
      by (simp add: inter_add_left2)
    then show ?thesis using True Cons.IH [of "remove1 x b"] by simp
  next
    case False
    then show ?thesis using Cons.IH [of b] by (simp add: inter_add_left1)
  qed
qed

lemma common_le_min: "size (mset a \<inter># mset b) \<le> min (length a) (length b)"
proof -
  have "size (mset a \<inter># mset b) \<le> size (mset a)" "size (mset a \<inter># mset b) \<le> size (mset b)"
    by (rule size_mset_mono, simp)+
  then show ?thesis by simp
qed

lemma calculate_ratio_mono: "m \<le> m' \<Longrightarrow> calculate_ratio m len \<le> calculate_ratio m' len"
  by (simp add: calculate_ratio_def divide_right_mono)

lemma ratio_le_quick: "seq_ratio a b \<le> quick_ratio a b"
  unfolding seq_ratio_def quick_ratio_def
  by (rule calculate_ratio_mono) (simp add: quick_matches_common matching_total_le_common)

lemma quick_le_real_quick: "quick_ratio a b \<le> real_quick_ratio a b"
  unfolding quick_ratio_def real_quick_ratio_def
  by (rule calculate_ratio_mono) (simp only: quick_matches_common common_le_min)

lemma good_enough_iff: "good_enough cutoff word x \<longleftrightarrow> cutoff \<le> seq_ratio x word"
  using ratio_le_quick [of x word] quick_le_real_quick [of x word]
  by (auto simp: good_enough_def)

subsection \<open>The best close match\<close>

lemma foldl_greatest_mem:
  "foldl (\<lambda>best c. if tuple_less best c then c else best) r rs \<in> set (r # rs)"
  by (induction rs arbitrary: r) auto

lemma foldl_greatest:
  "c \<in> set (r # rs) \<Longrightarrow>
     \<not> tuple_less (foldl (\<lambda>best c. if tuple_less best c then c else best) r rs) c"
proof (induction rs arbitrary: r c)
  case Nil
  then show ?case by (auto simp: tuple_less_def)
next
  case (Cons x rs)
  define r' where "r' = (if tuple_less r x then x else r)"
  define m where "m = foldl (\<lambda>best c. if tuple_less best c then c else best) r' rs"
  have top: "\<not> tuple_less m r'" unfolding m_def by (rule Cons.IH) simp
  have r: "\<not> tuple_less m r" and x: "\<not> tuple_less m x"
    using top unfolding r'_def by (auto simp: tuple_less_def split: if_splits)
  have rest: "\<not> tuple_less m c" if "c \<in> set rs"
    unfolding m_def by (rule Cons.IH) (use that in simp)
  have "foldl (\<lambda>best c. if tuple_less best c then c else best) r (x # rs) = m"
    by (simp add: m_def r'_def)
  with Cons.prems r x rest show ?case by auto
qed

lemma nlargest1_Nil: "nlargest1 xs = [] \<longleftrightarrow> xs = []"
  by (simp add: nlargest1_def split: list.splits)

lemma nlargest1_Cons:
  "nlargest1 xs = m # ms \<Longrightarrow> ms = [] \<and> m \<in> set xs \<and> (\<forall>c\<in>set xs. fst c \<le> fst m)"
proof -
  assume a: "nlargest1 xs = m # ms"
  then obtain r rs where xs: "xs = r # rs"
    and m: "m = foldl (\<lambda>best c. if tuple_less best c then c else best) r rs" and ms: "ms = []"
    by (auto simp: nlargest1_def split: list.splits)
  have "m \<in> set xs" unfolding m xs by (rule foldl_greatest_mem)
  moreover have "fst c \<le> fst m" if "c \<in> set xs" for c
    using foldl_greatest [of c r rs] that unfolding m xs
    by (auto simp: tuple_less_def not_less)
  ultimately show ?thesis using ms by blast
qed

lemma get_close_matches_Nil:
  "get_close_matches word ps cutoff = [] \<longleftrightarrow> (\<forall>x\<in>set ps. seq_ratio x word < cutoff)"
  by (auto simp: get_close_matches_def nlargest1_Nil filter_empty_conv good_enough_iff not_le)

lemma get_close_matches_Cons:
  assumes "get_close_matches word ps cutoff = m # ms"
  shows "ms = [] \<and> m \<in> set ps \<and> cutoff \<le> seq_ratio m word
         \<and> (\<forall>x\<in>set ps. seq_ratio x word \<le> seq_ratio m word)"
proof -
  let ?scored = "map (\<lambda>x. (seq_ratio x word, x)) (filter (good_enough cutoff word) ps)"
  from assms obtain p ps' where n: "nlargest1 ?scored = p # ps'" and m: "m = snd p"
    and ms: "ms = map snd ps'"
    by (auto simp: get_close_matches_def)
  from nlargest1_Cons [OF n] have e: "ps' = []" and mem: "p \<in> set ?scored"
    and top: "\<forall>c\<in>set ?scored. fst c \<le> fst p" by auto
  from mem m have p: "p = (seq_ratio m word, m)" and mp: "m \<in> set ps"
    and ge: "cutoff \<le> seq_ratio m word"
    by (auto simp: good_enough_iff)
  have "seq_ratio x word \<le> seq_ratio m word" if "x \<in> set ps" for x
  proof (cases "cutoff \<le> seq_ratio x word")
    case True
    with that have "(seq_ratio x word, x) \<in> set ?scored" by (auto simp: good_enough_iff)
    with top p show ?thesis by fastforce
  next
    case False
    with ge show ?thesis by simp
  qed
  with e ms mp ge show ?thesis by simp
qed

subsection \<open>Totals and flags\<close>

lemma assess_flag_nutrient:
  "assess rdi tot n = Inr (fl, su) \<Longrightarrow> f \<in> set fl \<Longrightarrow> flag_nutrient f = n"
  by (auto simp: assess_def Let_def split: option.splits if_splits sum.splits)

lemma assess_skips:
  "rdi n = None \<or> rdi n = Some 0 \<Longrightarrow> assess rdi tot n = Inr ([], [])"
  by (auto simp: assess_def)

lemma assess_no_zero_division: "assess rdi tot n \<noteq> Inl ZeroDivisionError"
  by (auto simp: assess_def Let_def py_div_def dict_item_def split: option.splits sum.splits)

lemma assess_all_no_zero_division: "assess_all rdi tot ns \<noteq> Inl ZeroDivisionError"
  by (induction ns) (auto simp: assess_no_zero_division split: sum.splits prod.splits)

lemma assess_all_filter:
  "assess_all rdi tot ns = Inr (fl, su) \<Longrightarrow> distinct ns \<Longrightarrow>
     filter (\<lambda>f. flag_nutrient f = n) fl =
       (if n \<in> set ns then (case assess rdi tot n of Inr (fl', su') \<Rightarrow> fl' | Inl e \<Rightarrow> []) else [])"
proof (induction ns arbitrary: fl su)
  case Nil
  then show ?case by simp
next
  case (Cons m ns)
  from Cons.prems obtain fl1 su1 fl2 su2 where
    m: "assess rdi tot m = Inr (fl1, su1)" and r: "assess_all rdi tot ns = Inr (fl2, su2)"
    and fl: "fl = fl1 @ fl2"
    by (auto split: sum.splits prod.splits)
  have one: "filter (\<lambda>f. flag_nutrient f = n) fl1 = (if n = m then fl1 else [])"
    using assess_flag_nutrient [OF m] by (auto simp: filter_empty_conv filter_id_conv)
  have two: "filter (\<lambda>f. flag_nutrient f = n) fl2 =
       (if n \<in> set ns then (case assess rdi tot n of Inr (fl', su') \<Rightarrow> fl' | Inl e \<Rightarrow> []) else [])"
    using Cons.IH [OF r] Cons.prems(2) by simp
  show ?case
    using one two m Cons.prems(2) by (auto simp: fl)
qed

lemma distinct_NUTRIENTS: "distinct NUTRIENTS"
  by (simp add: NUTRIENTS_def)

lemma analyze_meal_text_flags:
  assumes "analyze_meal_text rdi db text = Inr res"
  shows "\<exists>su. assess_all rdi (totals res) NUTRIENTS = Inr (flags res, su)"
  using assms
  by (auto simp: analyze_meal_text_def Let_def split: sum.splits prod.splits)

text \<open>A dict whose keys are exactly the nutrients.\<close>

definition nutrient_dict :: "(string \<Rightarrow> rat) \<Rightarrow> num_dict" where
  "nutrient_dict f = (\<lambda>k. if k \<in> set NUTRIENTS then Some (f k) else None)"

lemma zero_dict: "foldl (\<lambda>res n. res(n \<mapsto> 0)) Map.empty NUTRIENTS = nutrient_dict (\<lambda>k. 0)"
  by (rule ext) (simp add: NUTRIENTS_def nutrient_dict_def)

lemma scaled_dict:
  "foldl (\<lambda>res n. res(n \<mapsto> g n)) Map.empty NUTRIENTS = nutrient_dict g"
  by (rule ext) (simp add: NUTRIENTS_def nutrient_dict_def)

lemma calc_nutrition_dict:
  "calc_nutrition_for_item db key g =
     nutrient_dict (\<lambda>n. case food_entry db key of None \<Rightarrow> 0
                        | Some base \<Rightarrow> (g / 100) * dict_get base n 0)"
  by (simp add: calc_nutrition_for_item_def scaled_dict split: option.splits)

lemma add_nutrients_dict:
  "add_nutrients (nutrient_dict f) ni NUTRIENTS = Inr (nutrient_dict (\<lambda>k. f k + dict_get ni k 0))"
  apply (simp add: NUTRIENTS_def nutrient_dict_def dict_item_def)
  apply (rule ext)
  apply simp
  done

lemma add_items_dict:
  "add_items (nutrient_dict f) nis =
     Inr (nutrient_dict (\<lambda>k. f k + sum_list (map (\<lambda>ni. dict_get ni k 0) nis)))"
  by (induction nis arbitrary: f) (simp_all add: add_nutrients_dict add.assoc)

lemma sum_totals_dict:
  "sum_totals nis =
     Inr (nutrient_dict (\<lambda>k. py_round 2 (sum_list (map (\<lambda>ni. dict_get ni k 0) nis))))"
  by (simp add: sum_totals_def zero_dict add_items_dict) (auto simp: nutrient_dict_def)

lemma assess_ok:
  "n \<in> set NUTRIENTS \<Longrightarrow> \<exists>fl su. assess rdi (nutrient_dict f) n = Inr (fl, su)"
  by (auto simp: assess_def Let_def py_div_def dict_item_def nutrient_dict_def split: option.splits)

lemma assess_all_ok:
  "set ns \<subseteq> set NUTRIENTS \<Longrightarrow> \<exists>fl su. assess_all rdi (nutrient_dict f) ns = Inr (fl, su)"
proof (induction ns)
  case Nil
  then show ?case by simp
next
  case (Cons n ns)
  then obtain fl su fls sus where "assess rdi (nutrient_dict f) n = Inr (fl, su)"
    "assess_all rdi (nutrient_dict f) ns = Inr (fls, sus)"
    using assess_ok [of n rdi f] by auto
  then show ?case by simp
qed

lemma analyze_meal_text_ok:
  assumes "parse_meal_text db text = Inr parsed"
  shows "\<exists>res. analyze_meal_text rdi db text = Inr res"
proof -
  let ?nis = "map (\<lambda>p. calc_nutrition_for_item db (food_key p) (grams p)) parsed"
  obtain fl su where
    "assess_all rdi (nutrient_dict (\<lambda>k. py_round 2 (sum_list (map (\<lambda>ni. dict_get ni k 0) ?nis))))
       NUTRIENTS = Inr (fl, su)"
    using assess_all_ok [of NUTRIENTS] by blast
  then show ?thesis
    using assms by (simp add: analyze_meal_text_def sum_totals_dict Let_def)
qed


subsection \<open>Errors of the parser and of the analysis\<close>

lemma parse_clause_errors: "parse_clause db p = Inl e \<Longrightarrow> e = KeyError \<or> e = TypeError"
  by (auto simp: parse_clause_def parse_grams_clause_def parse_number_unit_food_def
      parse_bare_food_def dict_item_def Let_def split: option.splits prod.splits sum.splits)

lemma parse_each_errors: "parse_each db ps = Inl e \<Longrightarrow> e = KeyError \<or> e = TypeError"
  by (induction ps) (auto dest: parse_clause_errors split: sum.splits)

lemma analyze_meal_text_errors:
  "analyze_meal_text rdi db text = Inl e \<Longrightarrow> e = KeyError \<or> e = TypeError"
proof (cases "parse_meal_text db text")
  case (Inl e')
  assume "analyze_meal_text rdi db text = Inl e"
  with Inl have "e' = e" by (simp add: analyze_meal_text_def)
  with Inl parse_each_errors [of db "clauses text" e] show ?thesis
    by (simp add: parse_meal_text_def)
next
  case (Inr parsed)
  assume "analyze_meal_text rdi db text = Inl e"
  with analyze_meal_text_ok [OF Inr, of rdi] show ?thesis by auto
qed

lemma skipped_nutrient_has_no_flag:
  assumes "rdi n = None \<or> rdi n = Some 0" and "analyze_meal_text rdi db text = Inr res"
  shows "flags_for n res = []"
proof -
  obtain su where "assess_all rdi (totals res) NUTRIENTS = Inr (flags res, su)"
    using analyze_meal_text_flags [OF assms(2)] by blast
  from assess_all_filter [OF this distinct_NUTRIENTS, of n]
  show ?thesis
    using assess_skips [of rdi n "totals res"] assms(1) by (simp add: flags_for_def)
qed

lemma analyze_meal_text_no_zero_division:
  "analyze_meal_text rdi db text \<noteq> Inl ZeroDivisionError"
  using analyze_meal_text_errors [of rdi db "text" ZeroDivisionError] by auto

subsection \<open>The food matcher\<close>

lemma contains_iff: "contains t s \<longleftrightarrow> (\<exists>xs ys. s = xs @ t @ ys)"
proof (induction s)
  case Nil
  then show ?case by auto
next
  case (Cons c cs)
  have "(\<exists>xs ys. c # cs = xs @ t @ ys) \<longleftrightarrow>
        take (length t) (c # cs) = t \<or> (\<exists>xs ys. cs = xs @ t @ ys)"
  proof
    assume "\<exists>xs ys. c # cs = xs @ t @ ys"
    then obtain xs ys where e: "c # cs = xs @ t @ ys" by blast
    show "take (length t) (c # cs) = t \<or> (\<exists>xs ys. cs = xs @ t @ ys)"
    proof (cases xs)
      case Nil
      with e show ?thesis by simp
    next
      case (Cons x xs')
      with e have "cs = xs' @ t @ ys" by simp
      then show ?thesis by blast
    qed
  next
    assume "take (length t) (c # cs) = t \<or> (\<exists>xs ys. cs = xs @ t @ ys)"
    then show "\<exists>xs ys. c # cs = xs @ t @ ys"
    proof
      assume "take (length t) (c # cs) = t"
      then have "c # cs = [] @ t @ drop (length t) (c # cs)"
        by (metis append_Nil append_take_drop_id)
      then show ?thesis by blast
    next
      assume "\<exists>xs ys. cs = xs @ t @ ys"
      then obtain xs ys where "cs = xs @ t @ ys" by blast
      then have "c # cs = (c # xs) @ t @ ys" by simp
      then show ?thesis by blast
    qed
  qed
  with Cons.IH show ?case by simp
qed

lemma find_best_confidence:
  "snd (find_best_food_token db token) \<in> {0, 7 / 10, 8 / 10, 1}"
  by (auto simp: find_best_food_token_def Let_def split: option.splits list.splits)

lemma find_best_None: "fst (find_best_food_token db token) = None \<Longrightarrow> snd (find_best_food_token db token) = 0"
  by (auto simp: find_best_food_token_def Let_def split: option.splits list.splits)

lemma find_best_exact:
  assumes "\<exists>k\<in>set (FOOD_KEYS db). lower (strip token) = lower k"
  shows "\<exists>i<length (FOOD_KEYS db).
           find_best_food_token db token = (Some (FOOD_KEYS db ! i), 1)
           \<and> lower (strip token) = lower (FOOD_KEYS db ! i)
           \<and> (\<forall>j<i. lower (strip token) \<noteq> lower (FOOD_KEYS db ! j))"
proof -
  from assms obtain k where "List.find (\<lambda>key. lower (strip token) = lower key) (FOOD_KEYS db) = Some k"
    by (cases "List.find (\<lambda>key. lower (strip token) = lower key) (FOOD_KEYS db)")
       (auto simp: find_None_iff)
  then have "find_best_food_token db token = (Some k, 1)"
    and "\<exists>i<length (FOOD_KEYS db). k = FOOD_KEYS db ! i
           \<and> lower (strip token) = lower (FOOD_KEYS db ! i)
           \<and> (\<forall>j<i. lower (strip token) \<noteq> lower (FOOD_KEYS db ! j))"
    by (simp add: find_best_food_token_def Let_def, auto simp: find_Some_iff)
  then show ?thesis by auto
qed

lemma find_best_close:
  assumes "\<forall>k\<in>set (FOOD_KEYS db). lower (strip token) \<noteq> lower k"
    and "\<exists>k\<in>set (FOOD_KEYS db). 6 / 10 \<le> seq_ratio k (lower (strip token))"
  shows "\<exists>m\<in>set (FOOD_KEYS db).
           find_best_food_token db token = (Some m, 8 / 10)
           \<and> 6 / 10 \<le> seq_ratio m (lower (strip token))
           \<and> (\<forall>k\<in>set (FOOD_KEYS db). seq_ratio k (lower (strip token)) \<le> seq_ratio m (lower (strip token)))"
proof -
  let ?tok = "lower (strip token)"
  have none: "List.find (\<lambda>key. ?tok = lower key) (FOOD_KEYS db) = None"
    using assms(1) by (simp add: find_None_iff)
  from assms(2) have "get_close_matches ?tok (FOOD_KEYS db) (6 / 10) \<noteq> []"
    by (auto simp: get_close_matches_Nil not_less)
  then obtain m ms where g: "get_close_matches ?tok (FOOD_KEYS db) (6 / 10) = m # ms"
    by (cases "get_close_matches ?tok (FOOD_KEYS db) (6 / 10)") auto
  from get_close_matches_Cons [OF g] none g show ?thesis
    by (auto simp: find_best_food_token_def Let_def)
qed

lemma find_best_substring:
  assumes "\<forall>k\<in>set (FOOD_KEYS db). lower (strip token) \<noteq> lower k"
    and "\<forall>k\<in>set (FOOD_KEYS db). seq_ratio k (lower (strip token)) < 6 / 10"
    and "\<exists>k\<in>set (FOOD_KEYS db). contains (lower (strip token)) (lower k)"
  shows "\<exists>i<length (FOOD_KEYS db).
           find_best_food_token db token = (Some (FOOD_KEYS db ! i), 7 / 10)
           \<and> contains (lower (strip token)) (lower (FOOD_KEYS db ! i))
           \<and> (\<forall>j<i. \<not> contains (lower (strip token)) (lower (FOOD_KEYS db ! j)))"
proof -
  let ?tok = "lower (strip token)"
  have none: "List.find (\<lambda>key. ?tok = lower key) (FOOD_KEYS db) = None"
    using assms(1) by (simp add: find_None_iff)
  have g: "get_close_matches ?tok (FOOD_KEYS db) (6 / 10) = []"
    using assms(2) by (simp add: get_close_matches_Nil)
  from assms(3) obtain k where
    "List.find (\<lambda>key. contains ?tok (lower key)) (FOOD_KEYS db) = Some k"
    by (cases "List.find (\<lambda>key. contains ?tok (lower key)) (FOOD_KEYS db)")
       (auto simp: find_None_iff)
  with none g have "find_best_food_token db token = (Some k, 7 / 10)"
    and "\<exists>i<length (FOOD_KEYS db). k = FOOD_KEYS db ! i
           \<and> contains ?tok (lower (FOOD_KEYS db ! i))
           \<and> (\<forall>j<i. \<not> contains ?tok (lower (FOOD_KEYS db ! j)))"
    by (simp add: find_best_food_token_def Let_def, auto simp: find_Some_iff)
  then show ?thesis by auto
qed

lemma find_best_nothing:
  assumes "\<forall>k\<in>set (FOOD_KEYS db). lower (strip token) \<noteq> lower k
             \<and> seq_ratio k (lower (strip token)) < 6 / 10
             \<and> \<not> contains (lower (strip token)) (lower k)"
  shows "find_best_food_token db token = (None, 0)"
proof -
  let ?tok = "lower (strip token)"
  have "List.find (\<lambda>key. ?tok = lower key) (FOOD_KEYS db) = None"
    using assms by (simp add: find_None_iff)
  moreover have "get_close_matches ?tok (FOOD_KEYS db) (6 / 10) = []"
    using assms by (simp add: get_close_matches_Nil)
  moreover have "List.find (\<lambda>key. contains ?tok (lower key)) (FOOD_KEYS db) = None"
    using assms by (simp add: find_None_iff)
  ultimately show ?thesis by (simp add: find_best_food_token_def Let_def)
qed

lemma find_best_Some:
  assumes "find_best_food_token db token = (Some k, c)"
  shows "k \<in> set (FOOD_KEYS db) \<and>
     (lower (strip token) = lower k \<or> 6 / 10 \<le> seq_ratio k (lower (strip token))
      \<or> contains (lower (strip token)) (lower k))"
  using assms
  by (auto simp: find_best_food_token_def Let_def find_Some_iff
      split: option.splits list.splits dest!: get_close_matches_Cons)

subsection \<open>Groups of a match\<close>

lemma step_if_groups: "m \<in> set (step_if P st) \<Longrightarrow> groups m = groups st"
  by (auto simp: step_if_def split: list.splits if_splits)

lemma rmatch_keeps_groups:
  "m \<in> set (rmatch ic r st) \<Longrightarrow> g \<in> fst ` set (groups st) \<Longrightarrow> g \<in> fst ` set (groups m)"
proof (induction ic r st arbitrary: m rule: rmatch.induct)
  case (1 ic st)
  then show ?case by (simp add: rmatch.simps)
next
  case (2 ic a st)
  from "2.prems"(1) have "groups m = groups st"
    by (metis rmatch.simps(2) step_if_groups)
  with "2.prems"(2) show ?case by simp
next
  case (3 ic st)
  from "3.prems"(1) have "groups m = groups st"
    by (metis rmatch.simps(3) step_if_groups)
  with "3.prems"(2) show ?case by simp
next
  case (4 ic st)
  from "4.prems"(1) have "groups m = groups st"
    by (metis rmatch.simps(4) step_if_groups)
  with "4.prems"(2) show ?case by simp
next
  case (5 ic st)
  from "5.prems"(1) have "groups m = groups st"
    by (metis rmatch.simps(5) step_if_groups)
  with "5.prems"(2) show ?case by simp
next
  case (6 ic st)
  then show ?case by (auto simp: rmatch.simps split: if_splits)
next
  case (7 ic r1 r2 st)
  from "7.prems"(1) obtain st' where a: "st' \<in> set (rmatch ic r1 st)"
    and b: "m \<in> set (rmatch ic r2 st')"
    by (auto simp: rmatch.simps(7))
  from "7.IH"(1) [OF a "7.prems"(2)] have "g \<in> fst ` set (groups st')" .
  from "7.IH"(2) [OF a b this] show ?case .
next
  case (8 ic r1 r2 st)
  from "8.prems"(1) have "m \<in> set (rmatch ic r1 st) \<or> m \<in> set (rmatch ic r2 st)"
    by (simp add: rmatch.simps(8))
  then show ?case using "8.IH" "8.prems"(2) by blast
next
  case (9 ic r st)
  from "9.prems"(1) have "m \<in> set (rmatch ic r st) \<or> m = st"
    by (auto simp: rmatch.simps(9))
  then show ?case using "9.IH" "9.prems"(2) by blast
next
  case (10 ic r st)
  from "10.prems"(1) consider "m = st"
    | st' where "st' \<in> set (rmatch ic r st)" "length (rest st') < length (rest st)"
        "m \<in> set (rmatch ic (Star r) st')"
    by (subst (asm) rmatch.simps(10)) auto
  then show ?case
  proof cases
    case 1
    then show ?thesis using "10.prems"(2) by simp
  next
    case 2
    from "10.IH"(1) [OF 2(1) "10.prems"(2)] have "g \<in> fst ` set (groups st')" .
    with "10.IH"(2) [of st' m] 2 show ?thesis by simp
  qed
next
  case (11 ic g' r st)
  from "11.prems"(1) obtain st' where a: "st' \<in> set (rmatch ic r st)"
    and m: "groups m = (g', take (length (rest st) - length (rest st')) (rest st)) # groups st'"
    by (auto simp: rmatch.simps(11))
  from "11.IH" [OF a "11.prems"(2)] m show ?case by auto
qed

lemma rmatch_group_set:
  assumes "m \<in> set (rmatch ic (Seq (Group g r) r') st)"
  shows "match_group m g \<noteq> None"
proof -
  from assms obtain st' where a: "st' \<in> set (rmatch ic (Group g r) st)"
    and b: "m \<in> set (rmatch ic r' st')"
    by (auto simp: rmatch.simps(7))
  from a have "g \<in> fst ` set (groups st')" by (auto simp: rmatch.simps(11))
  from rmatch_keeps_groups [OF b this] show ?thesis
    by (simp add: match_group_def map_of_eq_None_iff)
qed

lemma re_search_from_mem:
  "re_search_from ic r p s = Some m \<Longrightarrow> \<exists>p' s'. m \<in> set (rmatch ic r (start_at p' s'))"
proof (induction ic r p s rule: re_search_from.induct)
  case (1 ic r p s)
  show ?case
  proof (cases "rmatch ic r (start_at p s)")
    case Nil
    with "1.prems" obtain c cs where s: "s = c # cs"
      and "re_search_from ic r (Some c) cs = Some m"
      by (subst (asm) re_search_from.simps) (cases s, auto)
    with "1.IH" [OF Nil s] show ?thesis by blast
  next
    case (Cons m' ms)
    with "1.prems" have "m = m'" by (subst (asm) re_search_from.simps) simp
    with Cons have "m \<in> set (rmatch ic r (start_at p s))" by simp
    then show ?thesis by blast
  qed
qed

lemma grams_group_present:
  assumes "re_search True grams_re p = Some gm"
  shows "match_group gm ''grams'' \<noteq> None"
proof -
  from assms obtain p' s' where
    "gm \<in> set (rmatch True (Seq (Group ''grams'' number_pat)
        (Seq (Star Space) (Seq (Chr CHR ''g'') WordB))) (start_at p' s'))"
    unfolding re_search_def grams_re_def by (blast dest: re_search_from_mem)
  then show ?thesis by (rule rmatch_group_set)
qed

subsection \<open>The shapes of a clause\<close>

lemma float_of_nonneg: "0 \<le> float_of s"
  by (simp add: float_of_def Let_def)

lemma find_best_key_in_table:
  "fst (find_best_food_token db token) = Some k \<Longrightarrow> k \<in> set (FOOD_KEYS db)"
  using find_best_Some [of db token k "snd (find_best_food_token db token)"]
  by (cases "find_best_food_token db token") auto

lemma parse_grams_clause_item:
  assumes "match_group gm ''grams'' = Some s"
  shows "parse_grams_clause db p gm =
     Inr \<lparr>raw = p,
          food_key = (case fst (find_best_food_token db (grams_token p)) of
                        None \<Rightarrow> Some (grams_token p) | Some k \<Rightarrow> Some k),
          grams = float_of s,
          confidence = snd (find_best_food_token db (grams_token p))\<rparr>"
  using assms by (simp add: parse_grams_clause_def Let_def split: prod.splits)

lemma parse_number_unit_food_item:
  "parse_number_unit_food db p m =
     Inr \<lparr>raw = p, food_key = fst (find_best_food_token db (food_token m)),
          grams = determine_grams db (match_number m) (match_unit m)
                    (fst (find_best_food_token db (food_token m))),
          confidence = snd (find_best_food_token db (food_token m))\<rparr>"
  by (simp add: parse_number_unit_food_def Let_def split: prod.splits)

lemma parse_bare_food_item:
  assumes "parse_bare_food db p = Inr item"
  shows "raw item = p \<and> food_key item = fst (find_best_food_token db (lower p))
       \<and> confidence item = snd (find_best_food_token db (lower p))
       \<and> grams item = (case food_entry db (fst (find_best_food_token db (lower p))) of
                          Some e \<Rightarrow> dict_get e ''serving_g'' 100 | None \<Rightarrow> 100)"
  using assms
  by (auto simp: parse_bare_food_def Let_def dict_item_def dict_get_def
      split: prod.splits option.splits)

lemma parse_clause_raw: "parse_clause db p = Inr item \<Longrightarrow> raw item = p"
  by (auto simp: parse_clause_def parse_number_unit_food_item parse_grams_clause_def Let_def
      dest: parse_bare_food_item split: option.splits prod.splits)

lemma UNIT_TO_G_pos: "UNIT_TO_G u = Some v \<Longrightarrow> 0 < v"
  by (auto simp: UNIT_TO_G_def split: if_splits)

lemma food_entry_in_table: "food_entry db key = Some e \<Longrightarrow> \<exists>k. (k, e) \<in> set db"
  by (auto simp: food_entry_def split: option.splits dest: map_of_SomeD)

lemma serving_pos:
  assumes "\<forall>(k, e) \<in> set db. \<forall>g. e ''serving_g'' = Some g \<longrightarrow> 0 < g"
    and "food_entry db key = Some e"
  shows "0 < dict_get e ''serving_g'' 100"
  using assms food_entry_in_table [OF assms(2)]
  by (fastforce simp: dict_get_def split: option.splits)

lemma determine_grams_pos:
  assumes "\<forall>(k, e) \<in> set db. \<forall>g. e ''serving_g'' = Some g \<longrightarrow> 0 < g"
    and "\<forall>v. num = Some v \<longrightarrow> 0 \<le> v"
  shows "0 < determine_grams db num unit key"
proof -
  have n: "0 < num_val num" if "truthy num"
    using that assms(2) by (cases num) (auto simp: truthy_def num_val_def)
  show ?thesis
    using n serving_pos [OF assms(1)] UNIT_TO_G_pos
    by (auto simp: determine_grams_def split: option.splits)
qed

lemma match_number_nonneg: "match_number m = Some v \<Longrightarrow> 0 \<le> v"
  by (auto simp: match_number_def float_of_nonneg split: option.splits if_splits)

lemma parse_clause_grams:
  assumes "parse_clause db p = Inr item"
    and "\<forall>(k, e) \<in> set db. \<forall>g. e ''serving_g'' = Some g \<longrightarrow> 0 < g"
  shows "0 \<le> grams item \<and>
     (grams item = 0 \<longrightarrow>
        (\<exists>gm s. re_search True grams_re p = Some gm \<and> match_group gm ''grams'' = Some s
                 \<and> float_of s = 0))"
proof (cases "re_search True grams_re p")
  case (Some gm)
  with grams_group_present [OF Some] obtain s where s: "match_group gm ''grams'' = Some s" by auto
  with assms(1) Some have "grams item = float_of s"
    by (auto simp: parse_clause_def parse_grams_clause_item)
  with Some s float_of_nonneg [of s] show ?thesis by auto
next
  case None
  have "0 < grams item"
  proof (cases "re_match True number_unit_food_re p")
    case (Some m)
    with assms(1) None have "grams item = determine_grams db (match_number m) (match_unit m)
                    (fst (find_best_food_token db (food_token m)))"
      by (auto simp: parse_clause_def parse_number_unit_food_item)
    with determine_grams_pos [OF assms(2)] match_number_nonneg show ?thesis by simp
  next
    case no: None
    with assms(1) None have "parse_bare_food db p = Inr item" by (simp add: parse_clause_def)
    from parse_bare_food_item [OF this] serving_pos [OF assms(2)] show ?thesis
      by (auto split: option.splits)
  qed
  then show ?thesis by simp
qed

lemma parse_each_items:
  "parse_each db ps = Inr items \<Longrightarrow>
     length items = length ps \<and> (\<forall>i<length ps. parse_clause db (ps ! i) = Inr (items ! i))"
proof (induction ps arbitrary: items)
  case Nil
  then show ?case by simp
next
  case (Cons p ps)
  from Cons.prems obtain item rest_items where
    a: "parse_clause db p = Inr item" and b: "parse_each db ps = Inr rest_items"
    and c: "items = item # rest_items"
    by (auto split: sum.splits)
  from Cons.IH [OF b] a c show ?case by (auto simp: nth_Cons split: nat.splits)
qed

lemma parse_each_raw: "parse_each db ps = Inr items \<Longrightarrow> map raw items = ps"
proof -
  assume a: "parse_each db ps = Inr items"
  from parse_each_items [OF a] have len: "length items = length ps"
    and each: "\<And>i. i < length ps \<Longrightarrow> parse_clause db (ps ! i) = Inr (items ! i)"
    by auto
  show ?thesis
  proof (rule nth_equalityI)
    show "length (map raw items) = length ps" using len by simp
  next
    fix i assume "i < length (map raw items)"
    with len have i: "i < length ps" by simp
    from parse_clause_raw [OF each [OF i]] i len show "map raw items ! i = ps ! i" by simp
  qed
qed

lemma parse_each_member:
  assumes "parse_each db ps = Inr items" and "item \<in> set items"
  shows "parse_clause db (raw item) = Inr item"
proof -
  from assms(2) obtain i where i: "i < length items" "items ! i = item"
    by (auto simp: in_set_conv_nth)
  with parse_each_items [OF assms(1)] have p: "parse_clause db (ps ! i) = Inr item" by auto
  from parse_clause_raw [OF this] p show ?thesis by simp
qed

lemma analyze_meal_text_raws:
  assumes "analyze_meal_text rdi db text = Inr res"
  shows "\<exists>parsed. parse_meal_text db text = Inr parsed \<and> map iv_raw (parsed_items res) = map raw parsed"
  using assms
  by (auto simp: analyze_meal_text_def Let_def view_of_def comp_def split: sum.splits prod.splits)

lemma parse_clause_ok:
  assumes "\<forall>(k, e) \<in> set db. e ''serving_g'' \<noteq> None"
  shows "\<exists>item. parse_clause db p = Inr item"
proof (cases "re_search True grams_re p")
  case (Some gm)
  with grams_group_present [OF Some] show ?thesis
    by (auto simp: parse_clause_def parse_grams_clause_item)
next
  case None
  show ?thesis
  proof (cases "re_match True number_unit_food_re p")
    case (Some m)
    with None show ?thesis by (simp add: parse_clause_def parse_number_unit_food_item)
  next
    case no: None
    have "e ''serving_g'' \<noteq> None" if "food_entry db key = Some e" for key e
      using food_entry_in_table [OF that] assms by auto
    then have "\<exists>item. parse_bare_food db p = Inr item"
      by (fastforce simp: parse_bare_food_def Let_def dict_item_def
          split: prod.splits option.splits)
    with None no show ?thesis by (simp add: parse_clause_def)
  qed
qed

lemma parse_each_ok:
  assumes "\<forall>(k, e) \<in> set db. e ''serving_g'' \<noteq> None"
  shows "\<exists>items. parse_each db ps = Inr items"
proof (induction ps)
  case Nil
  then show ?case by simp
next
  case (Cons p ps)
  with parse_clause_ok [OF assms, of p] show ?case by auto
qed

lemma unknown_food_zero:
  "food_entry db key = None \<Longrightarrow> n \<in> set NUTRIENTS \<Longrightarrow> calc_nutrition_for_item db key g n = Some 0"
  by (simp add: calc_nutrition_dict nutrient_dict_def)

subsection \<open>The split pattern\<close>

lemma is_word_and [simp]: "is_word CHR ''a''" "is_word CHR ''d''" "\<not> is_word CHR '',''"
  by (simp_all add: is_word_def)

lemma rmatch_split_re:
  "rmatch False split_re (start_at p s) =
     (case s of
        [] \<Rightarrow> []
      | c # cs \<Rightarrow>
          if c = CHR '','' then [\<lparr>prev = Some c, rest = cs, groups = []\<rparr>]
          else if take 3 s = ''and'' \<and> \<not> word_before p \<and> \<not> word_next (drop 3 s)
          then [\<lparr>prev = Some (s ! 2), rest = drop 3 s, groups = []\<rparr>]
          else [])"
proof (cases s)
  case Nil
  then show ?thesis
    by (simp add: split_re_def lit_def rmatch.simps step_if_def start_at_def at_boundary_def)
next
  case s1: (Cons c1 t1)
  show ?thesis
  proof (cases t1)
    case Nil
    with s1 show ?thesis
      by (auto simp: split_re_def lit_def rmatch.simps step_if_def start_at_def at_boundary_def
          word_before_def word_next_def split: option.splits)
  next
    case s2: (Cons c2 t2)
    show ?thesis
    proof (cases t2)
      case Nil
      with s1 s2 show ?thesis
        by (auto simp: split_re_def lit_def rmatch.simps step_if_def start_at_def at_boundary_def
            word_before_def word_next_def split: option.splits)
    next
      case s3: (Cons c3 t3)
      with s1 s2 show ?thesis
        by (auto simp: split_re_def lit_def rmatch.simps step_if_def start_at_def at_boundary_def
            word_before_def word_next_def split: option.splits list.splits)
    qed
  qed
qed

lemma re_split_refines_spec:
  "re_split_from False split_re p cur s = spec_split False p cur s"
proof (induction "length s" arbitrary: p cur s rule: less_induct)
  case less
  show ?case
  proof (cases s)
    case Nil
    then show ?thesis
      by (subst re_split_from.simps, subst spec_split.simps) simp
  next
    case (Cons c cs)
    have IH: "re_split_from False split_re p' cur' t = spec_split False p' cur' t"
      if "length t < Suc (length cs)" for p' cur' t
      using less [of t] that Cons by simp
    have lt: "length cs - 2 < Suc (length cs)" by arith
    show ?thesis
      by (subst re_split_from.simps, subst spec_split.simps)
         (simp add: rmatch_split_re Cons IH lt)
  qed
qed

section \<open>The claims\<close>

subsection \<open>Evaluations on the example table\<close>






lemma parse_two_eggs_ok: "\<not> isl (parse_meal_text example_db ''2 eggs'')"
  by code_simp

lemma sample_exact:
  "\<exists>k\<in>set (FOOD_KEYS sample_db). lower (strip '' EGG '') = lower k"
  by code_simp

lemma sample_close:
  "(\<forall>k\<in>set (FOOD_KEYS sample_db). lower (strip ''bananna'') \<noteq> lower k)
   \<and> (\<exists>k\<in>set (FOOD_KEYS sample_db). 6 / 10 \<le> seq_ratio k (lower (strip ''bananna'')))"
  by code_simp

lemma sample_substring:
  "(\<forall>k\<in>set (FOOD_KEYS sample_db). lower (strip ''Chick'') \<noteq> lower k)
   \<and> (\<forall>k\<in>set (FOOD_KEYS sample_db). seq_ratio k (lower (strip ''Chick'')) < 6 / 10)
   \<and> (\<exists>k\<in>set (FOOD_KEYS sample_db). contains (lower (strip ''Chick'')) (lower k))"
  by code_simp

lemma sample_nothing:
  "\<forall>k\<in>set (FOOD_KEYS sample_db). lower (strip ''tofu'') \<noteq> lower k
           \<and> seq_ratio k (lower (strip ''tofu'')) < 6 / 10
           \<and> \<not> contains (lower (strip ''tofu'')) (lower k)"
  by code_simp

subsection \<open>C5: priority of the matching strategies\<close>

text \<open>
  C5: with \<open>tok\<close> the stripped, lower-cased token, the matcher returns: the first key
  of the table whose lower-cased form equals \<open>tok\<close>, with confidence 1.0; otherwise a
  key whose similarity ratio to \<open>tok\<close> is at least 0.6 and greatest among all keys,
  with confidence 0.8; otherwise the first key of the table whose lower-cased form
  contains \<open>tok\<close>, with confidence 0.7; otherwise no key, with confidence 0.0. Every
  confidence is one of 0.0, 0.7, 0.8, 1.0.
\<close>

theorem find_best_food_token_priority:
  "((\<exists>k\<in>set (FOOD_KEYS db). lower (strip token) = lower k) \<longrightarrow>
      (\<exists>i<length (FOOD_KEYS db).
         find_best_food_token db token = (Some (FOOD_KEYS db ! i), 1)
         \<and> lower (strip token) = lower (FOOD_KEYS db ! i)
         \<and> (\<forall>j<i. lower (strip token) \<noteq> lower (FOOD_KEYS db ! j))))
   \<and> ((\<forall>k\<in>set (FOOD_KEYS db). lower (strip token) \<noteq> lower k)
        \<and> (\<exists>k\<in>set (FOOD_KEYS db). 6 / 10 \<le> seq_ratio k (lower (strip token))) \<longrightarrow>
      (\<exists>m\<in>set (FOOD_KEYS db).
         find_best_food_token db token = (Some m, 8 / 10)
         \<and> 6 / 10 \<le> seq_ratio m (lower (strip token))
         \<and> (\<forall>k\<in>set (FOOD_KEYS db).
               seq_ratio k (lower (strip token)) \<le> seq_ratio m (lower (strip token)))))
   \<and> ((\<forall>k\<in>set (FOOD_KEYS db). lower (strip token) \<noteq> lower k)
        \<and> (\<forall>k\<in>set (FOOD_KEYS db). seq_ratio k (lower (strip token)) < 6 / 10)
        \<and> (\<exists>k\<in>set (FOOD_KEYS db). contains (lower (strip token)) (lower k)) \<longrightarrow>
      (\<exists>i<length (FOOD_KEYS db).
         find_best_food_token db token = (Some (FOOD_KEYS db ! i), 7 / 10)
         \<and> contains (lower (strip token)) (lower (FOOD_KEYS db ! i))
         \<and> (\<forall>j<i. \<not> contains (lower (strip token)) (lower (FOOD_KEYS db ! j)))))
   \<and> ((\<forall>k\<in>set (FOOD_KEYS db). lower (strip token) \<noteq> lower k
           \<and> seq_ratio k (lower (strip token)) < 6 / 10
           \<and> \<not> contains (lower (strip token)) (lower k)) \<longrightarrow>
      find_best_food_token db token = (None, 0))
   \<and> snd (find_best_food_token db token) \<in> {0, 7 / 10, 8 / 10, 1}"
  using find_best_exact [of db token] find_best_close [of db token]
    find_best_substring [of db token] find_best_nothing [of db token]
    find_best_confidence [of db token]
  by blast

theorem find_best_food_token_priority_witness:
  "snd (find_best_food_token sample_db '' EGG '') = 1
   \<and> snd (find_best_food_token sample_db ''bananna'') = 8 / 10
   \<and> snd (find_best_food_token sample_db ''Chick'') = 7 / 10
   \<and> find_best_food_token sample_db ''tofu'' = (None, 0)"
proof -
  have "snd (find_best_food_token sample_db '' EGG '') = 1"
    using find_best_food_token_priority [of sample_db "'' EGG ''"] sample_exact by auto
  moreover have "snd (find_best_food_token sample_db ''bananna'') = 8 / 10"
    using find_best_food_token_priority [of sample_db "''bananna''"] sample_close by auto
  moreover have "snd (find_best_food_token sample_db ''Chick'') = 7 / 10"
    using find_best_food_token_priority [of sample_db "''Chick''"] sample_substring by auto
  moreover have "find_best_food_token sample_db ''tofu'' = (None, 0)"
    using find_best_food_token_priority [of sample_db "''tofu''"] sample_nothing by blast
  ultimately show ?thesis by blast
qed

subsection \<open>C6: totals\<close>




subsection \<open>C7: thresholds of the flags\<close>



subsection \<open>C10: a missing or zero target\<close>

text \<open>
  C10: a nutrient whose target in the RDI table is missing or 0 is skipped: its round of
  the loop appends no flag and no suggestion, no flag of a result names it, and the
  analysis never ends in a division by zero.
\<close>

theorem rdi_missing_or_zero_is_skipped:
  assumes "rdi n = None \<or> rdi n = Some 0"
  shows "assess rdi tot n = Inr ([], [])
       \<and> (\<forall>db text res. analyze_meal_text rdi db text = Inr res \<longrightarrow> flags_for n res = [])
       \<and> (\<forall>db text. analyze_meal_text rdi db text \<noteq> Inl ZeroDivisionError)"
  using assms assess_skips [of rdi n tot] skipped_nutrient_has_no_flag [of rdi n]
    analyze_meal_text_no_zero_division [of rdi]
  by blast

theorem rdi_missing_or_zero_is_skipped_witness:
  "(RDI(''fiber'' \<mapsto> 0)) ''fiber'' = Some 0
   \<and> assess (RDI(''fiber'' \<mapsto> 0)) Map.empty ''fiber'' = Inr ([], [])
   \<and> (\<exists>res. analyze_meal_text (RDI(''fiber'' \<mapsto> 0)) example_db ''2 eggs'' = Inr res
        \<and> flags_for ''fiber'' res = [])"
proof -
  have h: "(RDI(''fiber'' \<mapsto> 0)) ''fiber'' = None \<or> (RDI(''fiber'' \<mapsto> 0)) ''fiber'' = Some 0"
    by simp
  obtain parsed where "parse_meal_text example_db ''2 eggs'' = Inr parsed"
    using parse_two_eggs_ok by (cases "parse_meal_text example_db ''2 eggs''") auto
  then obtain res where "analyze_meal_text (RDI(''fiber'' \<mapsto> 0)) example_db ''2 eggs'' = Inr res"
    using analyze_meal_text_ok by blast
  with rdi_missing_or_zero_is_skipped [of "RDI(''fiber'' \<mapsto> 0)" "''fiber''" Map.empty] h
  show ?thesis by auto
qed

subsection \<open>C9: the raw token as food key\<close>

text \<open>
  C9: when the food of a clause matches no known food, the item has confidence 0.0, and
  its \<^verbatim>\<open>food_key\<close> is the leftover token string in the explicit-grams shape, and
  \<^verbatim>\<open>None\<close> in the number-unit-food shape and in the bare-food-name shape. Outside the
  explicit-grams shape a \<^verbatim>\<open>food_key\<close> is always \<^verbatim>\<open>None\<close> or a key of the table.
\<close>

theorem raw_token_fallback_only_for_explicit_grams:
  assumes "parse_clause db p = Inr item"
  shows "(re_search True grams_re p \<noteq> None
            \<and> fst (find_best_food_token db (grams_token p)) = None
          \<longrightarrow> food_key item = Some (grams_token p) \<and> confidence item = 0)
       \<and> (re_search True grams_re p = None
          \<longrightarrow> (\<forall>m. re_match True number_unit_food_re p = Some m
                     \<and> fst (find_best_food_token db (food_token m)) = None
                   \<longrightarrow> food_key item = None \<and> confidence item = 0))
       \<and> (re_search True grams_re p = None \<and> re_match True number_unit_food_re p = None
            \<and> fst (find_best_food_token db (lower p)) = None
          \<longrightarrow> food_key item = None \<and> confidence item = 0)
       \<and> (re_search True grams_re p = None
          \<longrightarrow> food_key item = None \<or> food_key item \<in> Some ` set (FOOD_KEYS db))"
proof (cases "re_search True grams_re p")
  case (Some gm)
  with grams_group_present [OF Some] obtain s where "match_group gm ''grams'' = Some s" by auto
  with assms Some show ?thesis
    by (auto simp: parse_clause_def parse_grams_clause_item find_best_None)
next
  case None
  show ?thesis
  proof (cases "re_match True number_unit_food_re p")
    case (Some m)
    with assms None show ?thesis
      using find_best_key_in_table [of db "food_token m"]
      by (cases "fst (find_best_food_token db (food_token m))")
         (auto simp: parse_clause_def parse_number_unit_food_item find_best_None)
  next
    case no: None
    with assms None have "parse_bare_food db p = Inr item" by (simp add: parse_clause_def)
    from parse_bare_food_item [OF this] None no show ?thesis
      using find_best_key_in_table [of db "lower p"]
      by (cases "fst (find_best_food_token db (lower p))") (auto simp: find_best_None)
  qed
qed


subsection \<open>C8: a quantity of zero\<close>

text \<open>
  C8, amended: for every clause that the explicit-grams pattern does not match and whose
  number-unit-food match has the number 0, whatever unit word follows, \<^verbatim>\<open>grams\<close> is
  the matched food's \<^verbatim>\<open>serving_g\<close> (100 when the entry has none), or 100 when no
  food matched: the quantity 0 is treated as if no number were present.
\<close>

theorem zero_quantity_takes_the_serving_size:
  assumes "re_search True grams_re p = None"
    and "re_match True number_unit_food_re p = Some m"
    and "match_number m = Some 0"
  shows "\<exists>item. parse_clause db p = Inr item
           \<and> food_key item = fst (find_best_food_token db (food_token m))
           \<and> grams item = (case food_entry db (food_key item) of
                              Some e \<Rightarrow> dict_get e ''serving_g'' 100
                            | None \<Rightarrow> 100)"
  using assms
  by (simp add: parse_clause_def parse_number_unit_food_item determine_grams_def truthy_def)

subsection \<open>C3: grams of a parsed item\<close>

text \<open>
  C3, amended: when every \<^verbatim>\<open>serving_g\<close> of the table is positive, the \<^verbatim>\<open>grams\<close> of
  every parsed item is at least 0, and it is 0 only for a clause of the explicit-grams
  shape whose written number is zero; for every other clause it is strictly positive.
\<close>

theorem grams_nonnegative_zero_only_when_written:
  assumes "parse_meal_text db text = Inr items" and "item \<in> set items"
    and "\<forall>(k, e) \<in> set db. \<forall>g. e ''serving_g'' = Some g \<longrightarrow> 0 < g"
  shows "0 \<le> grams item \<and>
     (grams item = 0 \<longrightarrow>
        (\<exists>gm s. re_search True grams_re (raw item) = Some gm
                 \<and> match_group gm ''grams'' = Some s \<and> float_of s = 0))"
  using parse_clause_grams [OF parse_each_member [of db "clauses text" items item] assms(3)] assms(1,2)
  by (simp add: parse_meal_text_def)

subsection \<open>C4: clauses and items\<close>

text \<open>
  C4, amended: the parts of the text are those obtained by cutting at literal commas and
  at the standalone word \<^verbatim>\<open>and\<close>, matched with word boundaries and with regard to
  case (lower-case \<^verbatim>\<open>and\<close> only); the clauses are the stripped parts that are not
  empty; and the parsed items, and the items of a returned result, are one per clause,
  in order, each with its clause as \<^verbatim>\<open>raw\<close>.
\<close>

theorem one_item_per_clause:
  "re_split False split_re text = spec_split False None [] text
   \<and> clauses text = spec_clauses False text
   \<and> (\<forall>db items. parse_meal_text db text = Inr items \<longrightarrow> map raw items = clauses text)
   \<and> (\<forall>rdi db res. analyze_meal_text rdi db text = Inr res \<longrightarrow>
          map iv_raw (parsed_items res) = clauses text)"
proof -
  have a: "re_split False split_re text = spec_split False None [] text"
    by (simp add: re_split_def re_split_refines_spec)
  have b: "map raw items = clauses text" if "parse_meal_text db text = Inr items" for db items
    using that parse_each_raw [of db "clauses text" items] by (simp add: parse_meal_text_def)
  have c: "map iv_raw (parsed_items res) = clauses text"
    if "analyze_meal_text rdi db text = Inr res" for rdi db res
    using analyze_meal_text_raws [OF that] b by auto
  from a b c show ?thesis by (simp add: clauses_def spec_clauses_def)
qed

subsection \<open>C2: empty input, and a result otherwise\<close>

text \<open>
  C2: for a text that is empty or only whitespace, \<^verbatim>\<open>analyze\<close> answers with the
  empty-input error and leaves the log store as it was, whatever the table; for every
  other text, when every entry of the table has a \<^verbatim>\<open>serving_g\<close>, it returns a result,
  whether or not saving the log succeeds; and a food key that is not in the table
  contributes 0 for every nutrient.
\<close>

theorem analyze_empty_or_result:
  "(strip text = [] \<longrightarrow> analyze save rdi db text store = (Inl EmptyInput, store))
   \<and> (strip text \<noteq> [] \<and> (\<forall>(k, e) \<in> set db. e ''serving_g'' \<noteq> None) \<longrightarrow>
        (\<exists>res. analyze_meal_text rdi db text = Inr res
           \<and> analyze save rdi db text store =
               (Inr res, case save store text (totals res) of
                           None \<Rightarrow> store | Some store' \<Rightarrow> store')))
   \<and> (food_entry db key = None \<longrightarrow>
        (\<forall>n\<in>set NUTRIENTS. calc_nutrition_for_item db key g n = Some 0))"
proof (intro conjI impI)
  show "analyze save rdi db text store = (Inl EmptyInput, store)" if "strip text = []"
    using that by (simp add: analyze_def)
next
  assume a: "strip text \<noteq> [] \<and> (\<forall>(k, e) \<in> set db. e ''serving_g'' \<noteq> None)"
  then obtain items where "parse_meal_text db text = Inr items"
    using parse_each_ok [of db "clauses text"] by (auto simp: parse_meal_text_def)
  from analyze_meal_text_ok [OF this, of rdi] obtain res
    where "analyze_meal_text rdi db text = Inr res" by blast
  with a show "\<exists>res. analyze_meal_text rdi db text = Inr res
           \<and> analyze save rdi db text store =
               (Inr res, case save store text (totals res) of
                           None \<Rightarrow> store | Some store' \<Rightarrow> store')"
    by (simp add: analyze_def)
next
  assume "food_entry db key = None"
  then show "\<forall>n\<in>set NUTRIENTS. calc_nutrition_for_item db key g n = Some 0"
    by (simp add: unknown_food_zero)
qed

end
